theory Spec2Isabelle
  imports Complex_Main "HOL-Library.Word"
begin

section \<open>Data model\<close>

text \<open>
  The C++ type \<open>double\<close> is idealised as \<open>real\<close>: comparisons are exact on both, the
  arithmetic of the model does not round. \<open>int\<close> and \<open>atlas::idx_t\<close> are 32-bit words, so
  that \<open>- 1\<close> wraps where the machine does; sizes and loop counters are natural numbers.
\<close>

type_synonym idx_t = "32 word"

text \<open>
  Ways of not returning a value of the model: a failed \<open>assert\<close>; an access outside an
  array (undefined behaviour in the source, no bounds are checked there); a division of a
  \<open>double\<close> by zero, whose result (an infinity or a NaN) is not a real number.
\<close>

datatype fault = AssertionFailed | OutOfBounds | DivisionByZero

text \<open>
  A NetCDF variable as the importer sees it through the netCDF API: its dimension sizes
  and the value the library delivers at each flat position when the variable is read into
  a buffer of \<open>double\<close> or of \<open>int\<close> (the library converts between numeric types). A
  buffer of the variable's size is always filled completely: a read that fails inside
  the library is not modelled. A file maps names to variables; \<open>getVar\<close> of an unknown
  name is the null variable, \<open>None\<close>. A file system maps file names to files; opening an
  unknown name throws \<open>NcException\<close>.
\<close>

record ncvar =
  dims :: "nat list"
  doubles :: "nat \<Rightarrow> real"
  ints :: "nat \<Rightarrow> idx_t"

type_synonym ncfile = "string \<Rightarrow> ncvar option"

type_synonym filesystem = "string \<Rightarrow> ncfile option"

text \<open>
  A connectivity table of atlas: rows of indices, and the marker \<open>missing_value()\<close> of
  the table. The marker's value belongs to atlas and is a parameter of the model.
\<close>

record connectivity =
  missing_value :: idx_t
  rows :: "idx_t list list"

text \<open>The fields of \<open>atlas::Mesh\<close> that the two source files read or write.\<close>

record mesh =
  nodes_size :: nat
  nodes_xy :: "(real \<times> real) list"
  nodes_lonlat :: "(real \<times> real) list"
  nodes_global_index :: "int list"
  nodes_remote_index :: "int list"
  nodes_partition :: "int list"
  nodes_ghost :: "int list"
  nodes_flags :: "int list"
  nodes_cell_connectivity :: connectivity
  nodes_edge_connectivity :: connectivity
  cells_size :: nat
  cells_node_connectivity :: connectivity
  cells_edge_connectivity :: connectivity
  cells_global_index :: "int list"
  cells_partition :: "int list"
  edges_size :: nat
  edges_cell_connectivity :: connectivity
  edges_node_connectivity :: connectivity

text \<open>The default-constructed \<open>atlas::Mesh\<close>: no nodes, no cells, no edges, empty tables.\<close>

definition empty_connectivity :: "idx_t \<Rightarrow> connectivity" where
  "empty_connectivity mv = \<lparr>missing_value = mv, rows = []\<rparr>"

definition empty_mesh :: "idx_t \<Rightarrow> mesh" where
  "empty_mesh mv =
     \<lparr>nodes_size = 0, nodes_xy = [], nodes_lonlat = [], nodes_global_index = [],
      nodes_remote_index = [], nodes_partition = [], nodes_ghost = [], nodes_flags = [],
      nodes_cell_connectivity = empty_connectivity mv,
      nodes_edge_connectivity = empty_connectivity mv,
      cells_size = 0,
      cells_node_connectivity = empty_connectivity mv,
      cells_edge_connectivity = empty_connectivity mv,
      cells_global_index = [], cells_partition = [],
      edges_size = 0,
      edges_cell_connectivity = empty_connectivity mv,
      edges_node_connectivity = empty_connectivity mv\<rparr>"

subsection \<open>The operations of atlas that the importer calls\<close>

text \<open>
  Resizing a field keeps the entries it has; the entries it gains are not initialised by
  the source, which overwrites every one of them before returning. They are \<open>d\<close> here.
\<close>

definition resize_field :: "nat \<Rightarrow> 'a \<Rightarrow> 'a list \<Rightarrow> 'a list" where
  "resize_field n d xs = take n xs @ replicate (n - length xs) d"

text \<open>\<open>mesh.nodes().resize(n)\<close>.\<close>

definition nodes_resize :: "nat \<Rightarrow> mesh \<Rightarrow> mesh" where
  "nodes_resize n m =
     m\<lparr>nodes_size := n,
       nodes_xy := resize_field n (0, 0) (nodes_xy m),
       nodes_lonlat := resize_field n (0, 0) (nodes_lonlat m),
       nodes_global_index := resize_field n 0 (nodes_global_index m),
       nodes_remote_index := resize_field n 0 (nodes_remote_index m),
       nodes_partition := resize_field n 0 (nodes_partition m),
       nodes_ghost := resize_field n 0 (nodes_ghost m),
       nodes_flags := resize_field n 0 (nodes_flags m)\<rparr>"

text \<open>\<open>connectivity.add(rows, cols, values)\<close> with every value the same: new rows at the end.\<close>

definition connectivity_add :: "nat \<Rightarrow> nat \<Rightarrow> idx_t \<Rightarrow> connectivity \<Rightarrow> connectivity" where
  "connectivity_add numRows numCols v c = c\<lparr>rows := rows c @ replicate numRows (replicate numCols v)\<rparr>"

text \<open>
  \<open>connectivity.set(row, values)\<close> overwrites the entries of one row from the array
  \<open>values\<close>, as many as the row has. Neither the row index nor the array's length is
  checked by atlas.
\<close>

definition connectivity_set :: "nat \<Rightarrow> idx_t list \<Rightarrow> connectivity \<Rightarrow> fault + connectivity" where
  "connectivity_set row vals c =
     (if row < length (rows c) \<and> length (rows c ! row) \<le> length vals
      then Inr (c\<lparr>rows := (rows c)[row := take (length (rows c ! row)) vals]\<rparr>)
      else Inl OutOfBounds)"

text \<open>
  \<open>mesh.cells().add(new Triangle(), n)\<close>: \<open>n\<close> more cells, each with a row of 3 node
  indices; \<open>mesh.edges().add(new Line(), n)\<close>: \<open>n\<close> more edges, each with a row of 2.
\<close>

definition cells_add_Triangle :: "nat \<Rightarrow> mesh \<Rightarrow> mesh" where
  "cells_add_Triangle n m =
     m\<lparr>cells_size := cells_size m + n,
       cells_node_connectivity :=
         connectivity_add n 3 (missing_value (cells_node_connectivity m)) (cells_node_connectivity m),
       cells_global_index := resize_field (cells_size m + n) 0 (cells_global_index m),
       cells_partition := resize_field (cells_size m + n) 0 (cells_partition m)\<rparr>"

definition edges_add_Line :: "nat \<Rightarrow> mesh \<Rightarrow> mesh" where
  "edges_add_Line n m =
     m\<lparr>edges_size := edges_size m + n,
       edges_node_connectivity :=
         connectivity_add n 2 (missing_value (edges_node_connectivity m)) (edges_node_connectivity m)\<rparr>"

text \<open>A counted loop whose body may fail: the first failure ends it.\<close>

fun for_each :: "(nat \<Rightarrow> 's \<Rightarrow> fault + 's) \<Rightarrow> nat list \<Rightarrow> 's \<Rightarrow> fault + 's" where
  "for_each body [] s = Inr s"
| "for_each body (i # is) s =
     (case body i s of Inl e \<Rightarrow> Inl e | Inr s' \<Rightarrow> for_each body is s')"

section \<open>AtlasFromNetcdf.cpp\<close>

definition defaultPartition :: int where
  "defaultPartition = 0"

text \<open>\<open>LoadField<double>\<close> and \<open>LoadField<int>\<close>.\<close>

definition LoadField_double :: "ncfile \<Rightarrow> string \<Rightarrow> fault + real list" where
  "LoadField_double dataFile name =
     (case dataFile name of
        None \<Rightarrow> Inr []
      | Some data \<Rightarrow>
          if length (dims data) \<noteq> 1 then Inl AssertionFailed
          else Inr (map (doubles data) [0..<dims data ! 0]))"

definition LoadField_int :: "ncfile \<Rightarrow> string \<Rightarrow> fault + idx_t list" where
  "LoadField_int dataFile name =
     (case dataFile name of
        None \<Rightarrow> Inr []
      | Some data \<Rightarrow>
          if length (dims data) \<noteq> 1 then Inl AssertionFailed
          else Inr (map (ints data) [0..<dims data ! 0]))"

text \<open>\<open>Load2DField<int>\<close>: the values, the first dimension's size, the second's.\<close>

definition Load2DField_int :: "ncfile \<Rightarrow> string \<Rightarrow> fault + (idx_t list \<times> nat \<times> nat)" where
  "Load2DField_int dataFile name =
     (case dataFile name of
        None \<Rightarrow> Inr ([], 0, 0)
      | Some data \<Rightarrow>
          if length (dims data) \<noteq> 2 then Inl AssertionFailed
          else
            (let stride = dims data ! 0;
                 elPerStride = dims data ! 1;
                 size = stride * elPerStride
             in Inr (map (ints data) [0..<size], stride, elPerStride)))"

text \<open>The constant \<open>M_PI\<close> of \<open>math.h\<close>, idealised as the real number.\<close>

definition M_PI :: real where
  "M_PI = pi"

definition radToLat :: "real \<Rightarrow> real" where
  "radToLat rad = rad / (0.5 * M_PI) * 90"

definition radToLon :: "real \<Rightarrow> real" where
  "radToLon rad = rad / M_PI * 180"

text \<open>The body of the node loop of \<open>NodesFromNetCDF\<close>.\<close>

definition set_node :: "real list \<Rightarrow> real list \<Rightarrow> nat \<Rightarrow> mesh \<Rightarrow> mesh" where
  "set_node lon lat nodeIdx m =
     m\<lparr>nodes_lonlat := (nodes_lonlat m)[nodeIdx := (radToLon (lon ! nodeIdx), radToLat (lat ! nodeIdx))],
       nodes_global_index := (nodes_global_index m)[nodeIdx := int nodeIdx],
       nodes_remote_index := (nodes_remote_index m)[nodeIdx := int nodeIdx],
       nodes_partition := (nodes_partition m)[nodeIdx := defaultPartition],
       nodes_ghost := (nodes_ghost m)[nodeIdx := 0],
       nodes_flags := (nodes_flags m)[nodeIdx := 0]\<rparr>"

definition NodesFromNetCDF :: "ncfile \<Rightarrow> mesh \<Rightarrow> fault + (bool \<times> mesh)" where
  "NodesFromNetCDF dataFile m =
     (case LoadField_double dataFile ''vlon'' of
        Inl e \<Rightarrow> Inl e
      | Inr lon \<Rightarrow>
     (case LoadField_double dataFile ''vlat'' of
        Inl e \<Rightarrow> Inl e
      | Inr lat \<Rightarrow>
          if length lon = 0 \<or> length lat = 0 then Inr (False, m)
          else if length lon \<noteq> length lat then Inr (False, m)
          else
            (let numNodes = length lat
             in Inr (True, fold (set_node lon lat) [0..<numNodes] (nodes_resize numNodes m)))))"

text \<open>The body of the cell loop of \<open>CellsFromNetCDF\<close>.\<close>

definition set_cell :: "idx_t list \<Rightarrow> nat \<Rightarrow> nat \<Rightarrow> mesh \<Rightarrow> fault + mesh" where
  "set_cell cellToVertex ncells cellIdx m =
     (let tri_nodes = [cellToVertex ! (0 * ncells + cellIdx) - 1,
                       cellToVertex ! (1 * ncells + cellIdx) - 1,
                       cellToVertex ! (2 * ncells + cellIdx) - 1]
      in case connectivity_set cellIdx tri_nodes (cells_node_connectivity m) of
           Inl e \<Rightarrow> Inl e
         | Inr c \<Rightarrow>
             Inr (m\<lparr>cells_node_connectivity := c,
                    cells_global_index := (cells_global_index m)[cellIdx := int cellIdx],
                    cells_partition := (cells_partition m)[cellIdx := defaultPartition]\<rparr>))"

definition CellsFromNetCDF :: "ncfile \<Rightarrow> mesh \<Rightarrow> fault + (bool \<times> mesh)" where
  "CellsFromNetCDF dataFile m =
     (case Load2DField_int dataFile ''vertex_of_cell'' of
        Inl e \<Rightarrow> Inl e
      | Inr (cellToVertex, vertexPerCell, ncells) \<Rightarrow>
          if vertexPerCell \<noteq> 3 then Inr (False, m)
          else
            (case for_each (set_cell cellToVertex ncells) [0..<ncells] (cells_add_Triangle ncells m) of
               Inl e \<Rightarrow> Inl e
             | Inr m' \<Rightarrow> Inr (True, m')))"

text \<open>The body of the outer loop of \<open>AddNeighborList\<close>: one row of the table.\<close>

definition set_neighbors :: "idx_t list \<Rightarrow> nat \<Rightarrow> nat \<Rightarrow> nat \<Rightarrow> connectivity \<Rightarrow> fault + connectivity" where
  "set_neighbors xToY yPerX numY elemIdx c =
     (let yOfX = map (\<lambda>innerIdx. xToY ! (innerIdx * numY + elemIdx) - 1) [0..<yPerX]
      in connectivity_set elemIdx yOfX c)"

definition AddNeighborList :: "ncfile \<Rightarrow> string \<Rightarrow> nat \<Rightarrow> connectivity \<Rightarrow> fault + (bool \<times> connectivity)" where
  "AddNeighborList dataFile nbhListName yPerXExpected c =
     (case Load2DField_int dataFile nbhListName of
        Inl e \<Rightarrow> Inl e
      | Inr (xToY, yPerX, numY) \<Rightarrow>
          if yPerX \<noteq> yPerXExpected then Inr (False, c)
          else
            (case for_each (set_neighbors xToY yPerX numY) [0..<numY] c of
               Inl e \<Rightarrow> Inl e
             | Inr c' \<Rightarrow> Inr (True, c')))"

definition AllocNbhTable :: "connectivity \<Rightarrow> nat \<Rightarrow> nat \<Rightarrow> connectivity" where
  "AllocNbhTable c numElements nbhPerElem = connectivity_add numElements nbhPerElem (missing_value c) c"

text \<open>
  The two entry points. The result is \<open>Inr (Some mesh)\<close> for a mesh, \<open>Inr None\<close> for the
  empty optional (also after a caught \<open>NcException\<close>), \<open>Inl\<close> when the call does not
  return.
\<close>

definition AtlasMeshFromNetCDFMinimal :: "idx_t \<Rightarrow> filesystem \<Rightarrow> string \<Rightarrow> fault + mesh option" where
  "AtlasMeshFromNetCDFMinimal mv fs filename =
     (case fs filename of
        None \<Rightarrow> Inr None
      | Some dataFile \<Rightarrow>
     (case NodesFromNetCDF dataFile (empty_mesh mv) of
        Inl e \<Rightarrow> Inl e
      | Inr (ok, m) \<Rightarrow>
          if \<not> ok then Inr None
          else
            (case CellsFromNetCDF dataFile m of
               Inl e \<Rightarrow> Inl e
             | Inr (ok', m') \<Rightarrow> if \<not> ok' then Inr None else Inr (Some m'))))"

definition verticesPerEdge :: nat where "verticesPerEdge = 2"
definition cellsPerEdge :: nat where "cellsPerEdge = 2"
definition cellsPerNode :: nat where "cellsPerNode = 6"
definition edgesPerNode :: nat where "edgesPerNode = 6"
definition edgesPerCell :: nat where "edgesPerCell = 3"

text \<open>The five allocate-and-fill steps of \<open>AtlasMeshFromNetCDFComplete\<close>, one function each.\<close>

definition fill_edges_cell :: "ncfile \<Rightarrow> mesh \<Rightarrow> fault + (bool \<times> mesh)" where
  "fill_edges_cell dataFile m =
     (case AddNeighborList dataFile ''adjacent_cell_of_edge'' cellsPerEdge
             (AllocNbhTable (edges_cell_connectivity m) (edges_size m) cellsPerEdge) of
        Inl e \<Rightarrow> Inl e
      | Inr (ok, c) \<Rightarrow> Inr (ok, m\<lparr>edges_cell_connectivity := c\<rparr>))"

definition fill_edges_node :: "ncfile \<Rightarrow> mesh \<Rightarrow> fault + (bool \<times> mesh)" where
  "fill_edges_node dataFile m =
     (case AddNeighborList dataFile ''edge_vertices'' verticesPerEdge
             (AllocNbhTable (edges_node_connectivity m) (edges_size m) verticesPerEdge) of
        Inl e \<Rightarrow> Inl e
      | Inr (ok, c) \<Rightarrow> Inr (ok, m\<lparr>edges_node_connectivity := c\<rparr>))"

definition fill_nodes_cell :: "ncfile \<Rightarrow> mesh \<Rightarrow> fault + (bool \<times> mesh)" where
  "fill_nodes_cell dataFile m =
     (case AddNeighborList dataFile ''cells_of_vertex'' cellsPerNode
             (AllocNbhTable (nodes_cell_connectivity m) (nodes_size m) cellsPerNode) of
        Inl e \<Rightarrow> Inl e
      | Inr (ok, c) \<Rightarrow> Inr (ok, m\<lparr>nodes_cell_connectivity := c\<rparr>))"

definition fill_nodes_edge :: "ncfile \<Rightarrow> mesh \<Rightarrow> fault + (bool \<times> mesh)" where
  "fill_nodes_edge dataFile m =
     (case AddNeighborList dataFile ''edges_of_vertex'' edgesPerNode
             (AllocNbhTable (nodes_edge_connectivity m) (nodes_size m) edgesPerNode) of
        Inl e \<Rightarrow> Inl e
      | Inr (ok, c) \<Rightarrow> Inr (ok, m\<lparr>nodes_edge_connectivity := c\<rparr>))"

definition fill_cells_edge :: "ncfile \<Rightarrow> mesh \<Rightarrow> fault + (bool \<times> mesh)" where
  "fill_cells_edge dataFile m =
     (case AddNeighborList dataFile ''edge_of_cell'' edgesPerCell
             (AllocNbhTable (cells_edge_connectivity m) (cells_size m) edgesPerCell) of
        Inl e \<Rightarrow> Inl e
      | Inr (ok, c) \<Rightarrow> Inr (ok, m\<lparr>cells_edge_connectivity := c\<rparr>))"

text \<open>Steps in sequence: a step that reports \<open>false\<close> makes the caller return the empty optional.\<close>

fun fill_all :: "(mesh \<Rightarrow> fault + (bool \<times> mesh)) list \<Rightarrow> mesh \<Rightarrow> fault + mesh option" where
  "fill_all [] m = Inr (Some m)"
| "fill_all (step # steps) m =
     (case step m of
        Inl e \<Rightarrow> Inl e
      | Inr (ok, m') \<Rightarrow> if \<not> ok then Inr None else fill_all steps m')"

definition AtlasMeshFromNetCDFComplete :: "idx_t \<Rightarrow> filesystem \<Rightarrow> string \<Rightarrow> fault + mesh option" where
  "AtlasMeshFromNetCDFComplete mv fs filename =
     (case AtlasMeshFromNetCDFMinimal mv fs filename of
        Inl e \<Rightarrow> Inl e
      | Inr None \<Rightarrow> Inr None
      | Inr (Some m) \<Rightarrow>
     (case fs filename of
        None \<Rightarrow> Inr None
      | Some dataFile \<Rightarrow>
     (case LoadField_int dataFile ''edge_index'' of
        Inl e \<Rightarrow> Inl e
      | Inr edge_index \<Rightarrow>
     (case LoadField_int dataFile ''elat'' of
        Inl e \<Rightarrow> Inl e
      | Inr elat \<Rightarrow>
          (let numEdgesA = length edge_index;
               numEdgesB = length elat
           in if numEdgesA = 0 \<and> numEdgesB = 0 then Inr None
              else
                (let numEdges = max numEdgesA numEdgesB
                 in fill_all
                      [fill_edges_cell dataFile, fill_edges_node dataFile, fill_nodes_cell dataFile,
                       fill_nodes_edge dataFile, fill_cells_edge dataFile]
                      (edges_add_Line numEdges m)))))))"

text \<open>
  The neighbour tables that \<open>AtlasMeshFromNetCDFComplete\<close> fills: the variable each is read
  from, the number of neighbours per element it expects, and the table of the mesh.
\<close>

definition neighbor_tables :: "(string \<times> nat \<times> (mesh \<Rightarrow> connectivity)) list" where
  "neighbor_tables =
     [(''adjacent_cell_of_edge'', cellsPerEdge, edges_cell_connectivity),
      (''edge_vertices'', verticesPerEdge, edges_node_connectivity),
      (''cells_of_vertex'', cellsPerNode, nodes_cell_connectivity),
      (''edges_of_vertex'', edgesPerNode, nodes_edge_connectivity),
      (''edge_of_cell'', edgesPerCell, cells_edge_connectivity)]"

section \<open>GenerateRectAtlasMesh.h\<close>

text \<open>
  \<open>cellToNode(cellIdx, k)\<close> and the lambda \<open>getXY\<close> of \<open>TriangleInBB\<close>. The source checks no
  index: a cell or a node that the mesh does not have is an access out of bounds.
\<close>

definition cellToNode :: "mesh \<Rightarrow> nat \<Rightarrow> nat \<Rightarrow> fault + idx_t" where
  "cellToNode m cellIdx k =
     (let rs = rows (cells_node_connectivity m)
      in if cellIdx < length rs \<and> k < length (rs ! cellIdx) then Inr (rs ! cellIdx ! k)
         else Inl OutOfBounds)"

definition getXY :: "mesh \<Rightarrow> idx_t \<Rightarrow> fault + (real \<times> real)" where
  "getXY m nodeIdx =
     (if 0 \<le> sint nodeIdx \<and> nat (sint nodeIdx) < length (nodes_xy m)
      then Inr (nodes_xy m ! nat (sint nodeIdx))
      else Inl OutOfBounds)"

definition inBB :: "real \<times> real \<Rightarrow> real \<times> real \<Rightarrow> real \<Rightarrow> real \<Rightarrow> bool" where
  "inBB bblo bbhi x y \<longleftrightarrow> x > fst bblo \<and> y > snd bblo \<and> x < fst bbhi \<and> y < snd bbhi"

definition TriangleInBB :: "mesh \<Rightarrow> nat \<Rightarrow> real \<times> real \<Rightarrow> real \<times> real \<Rightarrow> fault + bool" where
  "TriangleInBB m cellIdx bblo bbhi =
     (case cellToNode m cellIdx 0 of Inl e \<Rightarrow> Inl e | Inr node0 \<Rightarrow>
     (case cellToNode m cellIdx 1 of Inl e \<Rightarrow> Inl e | Inr node1 \<Rightarrow>
     (case cellToNode m cellIdx 2 of Inl e \<Rightarrow> Inl e | Inr node2 \<Rightarrow>
     (case getXY m node0 of Inl e \<Rightarrow> Inl e | Inr (x0, y0) \<Rightarrow>
     (case getXY m node1 of Inl e \<Rightarrow> Inl e | Inr (x1, y1) \<Rightarrow>
     (case getXY m node2 of Inl e \<Rightarrow> Inl e | Inr (x2, y2) \<Rightarrow>
        Inr (inBB bblo bbhi x0 y0 \<or> inBB bblo bbhi x1 y1 \<or> inBB bblo bbhi x2 y2)))))))"










definition select_cell :: "mesh \<Rightarrow> real \<times> real \<Rightarrow> real \<times> real \<Rightarrow> nat \<Rightarrow> nat list \<Rightarrow> fault + nat list" where
  "select_cell m lo hi cellIdx keep =
     (case TriangleInBB m cellIdx lo hi of
        Inl e \<Rightarrow> Inl e
      | Inr b \<Rightarrow> Inr (if b then keep @ [cellIdx] else keep))"












section \<open>Example files\<close>

text \<open>
  One triangle with its three edges. Every value of the examples is a small natural
  number, which reads the same into a buffer of \<open>double\<close> and of \<open>int\<close>. Padding in the
  tables of the vertices is the value 0.
\<close>

definition example_var :: "nat list \<Rightarrow> nat list \<Rightarrow> ncvar" where
  "example_var ds xs = \<lparr>dims = ds, doubles = (\<lambda>k. real (xs ! k)), ints = (\<lambda>k. of_nat (xs ! k))\<rparr>"

definition example_minimal :: ncfile where
  "example_minimal =
     [''vlon'' \<mapsto> example_var [3] [0, 1, 0],
      ''vlat'' \<mapsto> example_var [3] [0, 0, 1],
      ''vertex_of_cell'' \<mapsto> example_var [3, 1] [1, 2, 3]]"

definition example_no_edge_of_cell :: ncfile where
  "example_no_edge_of_cell =
     example_minimal
       (''edge_index'' \<mapsto> example_var [3] [1, 2, 3],
        ''adjacent_cell_of_edge'' \<mapsto> example_var [2, 3] [1, 1, 1, 0, 0, 0],
        ''edge_vertices'' \<mapsto> example_var [2, 3] [1, 2, 3, 2, 3, 1],
        ''cells_of_vertex'' \<mapsto> example_var [6, 3] [1, 1, 1, 0, 0, 0, 0, 0, 0, 0, 0, 0, 0, 0, 0, 0, 0, 0],
        ''edges_of_vertex'' \<mapsto> example_var [6, 3] [1, 1, 2, 3, 2, 3, 0, 0, 0, 0, 0, 0, 0, 0, 0, 0, 0, 0])"

definition example_complete :: ncfile where
  "example_complete = example_no_edge_of_cell(''edge_of_cell'' \<mapsto> example_var [3, 1] [1, 2, 3])"

definition example_fs :: filesystem where
  "example_fs =
     [''minimal.nc'' \<mapsto> example_minimal,
      ''no_edge_of_cell.nc'' \<mapsto> example_no_edge_of_cell,
      ''complete.nc'' \<mapsto> example_complete]"

text \<open>A mesh of one triangle with the corners \<open>(0, 0)\<close>, \<open>(4, 0)\<close> and \<open>(2, 3)\<close>.\<close>

definition example_triangle :: mesh where
  "example_triangle =
     (empty_mesh (- 1))
       \<lparr>nodes_size := 3, nodes_xy := [(0, 0), (4, 0), (2, 3)], cells_size := 1,
        cells_node_connectivity := \<lparr>missing_value = - 1, rows = [[0, 1, 2]]\<rparr>\<rparr>"


section \<open>Notions for the proofs\<close>









section \<open>Properties of the importer\<close>

lemma for_each_append:
  "for_each body (xs @ ys) s =
     (case for_each body xs s of Inl e \<Rightarrow> Inl e | Inr s' \<Rightarrow> for_each body ys s')"
  by (induction xs arbitrary: s) (auto split: sum.splits)

lemma connectivity_set_Inr:
  assumes "connectivity_set row vals c = Inr c'"
  shows "missing_value c' = missing_value c"
    and "length (rows c') = length (rows c)"
    and "row < length (rows c)"
    and "rows c' ! row = take (length (rows c ! row)) vals"
    and "length (rows c ! row) \<le> length vals"
    and "e \<noteq> row \<Longrightarrow> rows c' ! e = rows c ! e"
    and "length (rows c' ! e) = length (rows c ! e)"
  using assms
  by (auto simp: connectivity_set_def nth_list_update split: if_splits)

lemma for_each_set_neighbors:
  assumes "for_each (set_neighbors xToY yPerX numY) es c = Inr c'"
  shows "missing_value c' = missing_value c \<and> length (rows c') = length (rows c)
       \<and> (\<forall>e. length (rows c' ! e) = length (rows c ! e))
       \<and> (\<forall>e. e \<notin> set es \<longrightarrow> rows c' ! e = rows c ! e)
       \<and> (\<forall>e\<in>set es. e < length (rows c) \<and> length (rows c ! e) \<le> yPerX \<and> 
            (\<forall>k<length (rows c ! e). rows c' ! e ! k = xToY ! (k * numY + e) - 1))"
  using assms
proof (induction es arbitrary: c)
  case Nil
  then show ?case by simp
next
  case (Cons a es)
  from Cons.prems obtain c1 where s0: "set_neighbors xToY yPerX numY a c = Inr c1"
    and r: "for_each (set_neighbors xToY yPerX numY) es c1 = Inr c'"
    by (auto split: sum.splits)
  from s0 have s1: "connectivity_set a (map (\<lambda>innerIdx. xToY ! (innerIdx * numY + a) - 1) [0..<yPerX]) c = Inr c1"
    by (simp add: set_neighbors_def)
  note ih = Cons.IH[OF r]
  note p = connectivity_set_Inr[OF s1]
  have len: "length (rows c ! a) \<le> yPerX" using p(5) by simp
  have a_row: "\<forall>k<length (rows c ! a). rows c' ! a ! k = xToY ! (k * numY + a) - 1"
  proof (cases "a \<in> set es")
    case True
    with ih p(7) show ?thesis by simp
  next
    case False
    with ih have "rows c' ! a = rows c1 ! a" by simp
    with p(4) len show ?thesis by simp
  qed
  have others: "\<forall>e\<in>set es. e < length (rows c) \<and> length (rows c ! e) \<le> yPerX \<and> 
            (\<forall>k<length (rows c ! e). rows c' ! e ! k = xToY ! (k * numY + e) - 1)"
    using ih p(2) p(7) by simp
  have untouched: "\<forall>e. e \<notin> set (a # es) \<longrightarrow> rows c' ! e = rows c ! e"
    using ih p(6) by simp
  show ?case
    using ih p(1) p(2) p(3) p(7) len a_row others untouched by simp
qed


lemma for_each_set_neighbors_ok:
  assumes "\<forall>e\<in>set es. e < length (rows c) \<and> length (rows c ! e) \<le> yPerX"
  shows "\<exists>c'. for_each (set_neighbors xToY yPerX numY) es c = Inr c'"
  using assms
proof (induction es arbitrary: c)
  case Nil
  then show ?case by simp
next
  case (Cons a es)
  then obtain c1 where s1: "connectivity_set a (map (\<lambda>innerIdx. xToY ! (innerIdx * numY + a) - 1) [0..<yPerX]) c = Inr c1"
    by (auto simp: connectivity_set_def)
  note p = connectivity_set_Inr[OF s1]
  have "\<forall>e\<in>set es. e < length (rows c1) \<and> length (rows c1 ! e) \<le> yPerX"
    using Cons.prems p(2) p(7) by simp
  from Cons.IH[OF this] s1 show ?case
    by (simp add: set_neighbors_def)
qed

lemma Load2DField_int_nth:
  assumes "Load2DField_int f name = Inr (xToY, yPerX, numY)" and "f name = Some v"
  shows "length (dims v) = 2" and "dims v ! 0 = yPerX" and "dims v ! 1 = numY"
    and "j < yPerX * numY \<Longrightarrow> xToY ! j = ints v j"
  using assms by (auto simp: Load2DField_int_def Let_def split: if_splits)

lemma column_major_index:
  fixes k e numY yPerX :: nat
  assumes "k < yPerX" and "e < numY"
  shows "k * numY + e < yPerX * numY"
proof -
  have "k * numY + e < k * numY + numY" using assms(2) by simp
  also have "\<dots> = (Suc k) * numY" by simp
  also have "\<dots> \<le> yPerX * numY" using assms(1) by (intro mult_le_mono1) simp
  finally show ?thesis .
qed

lemma AddNeighborList_True:
  assumes "AddNeighborList f name yPerXExpected c = Inr (True, c')" and "f name = Some v"
  shows "length (dims v) = 2" and "dims v ! 0 = yPerXExpected"
    and "missing_value c' = missing_value c" and "length (rows c') = length (rows c)"
    and "dims v ! 1 \<le> length (rows c)"
    and "\<And>e k. e < dims v ! 1 \<Longrightarrow> k < length (rows c ! e) \<Longrightarrow>
           rows c' ! e ! k = ints v (k * (dims v ! 1) + e) - 1"
    and "\<And>e. length (rows c' ! e) = length (rows c ! e)"
proof -
  from assms(1) obtain xToY yPerX numY where
    ld: "Load2DField_int f name = Inr (xToY, yPerX, numY)"
    and eq: "yPerX = yPerXExpected"
    and fe: "for_each (set_neighbors xToY yPerX numY) [0..<numY] c = Inr c'"
    by (auto simp: AddNeighborList_def split: sum.splits if_splits prod.splits)
  note l = Load2DField_int_nth[OF ld assms(2)]
  note r = for_each_set_neighbors[OF fe]
  show "length (dims v) = 2" by (rule l(1))
  show "dims v ! 0 = yPerXExpected" using l(2) eq by simp
  show "missing_value c' = missing_value c" using r by simp
  show "length (rows c') = length (rows c)" using r by simp
  show "\<And>e. length (rows c' ! e) = length (rows c ! e)" using r by simp
  show "dims v ! 1 \<le> length (rows c)"
  proof (cases numY)
    case 0
    then show ?thesis using l(3) by simp
  next
    case (Suc n)
    then have "n \<in> set [0..<numY]" by simp
    with r have "n < length (rows c)" by blast
    then show ?thesis using l(3) Suc by simp
  qed
  show "rows c' ! e ! k = ints v (k * (dims v ! 1) + e) - 1"
    if "e < dims v ! 1" and "k < length (rows c ! e)" for e k
  proof -
    from that(1) l(3) have e: "e \<in> set [0..<numY]" by simp
    with r have len: "length (rows c ! e) \<le> yPerX"
      and row: "\<forall>k<length (rows c ! e). rows c' ! e ! k = xToY ! (k * numY + e) - 1"
      by blast+
    from that(2) len have "k < yPerX" by simp
    with e have "k * numY + e < yPerX * numY" by (intro column_major_index) simp_all
    then have "xToY ! (k * numY + e) = ints v (k * numY + e)" by (rule l(4))
    with row that(2) l(3) show ?thesis by simp
  qed
qed

lemma AddNeighborList_missing:
  assumes "f name = None" and "0 < yPerXExpected"
  shows "AddNeighborList f name yPerXExpected c = Inr (False, c)"
  using assms by (simp add: AddNeighborList_def Load2DField_int_def)


lemma upt_3: "[0..<3] = [0, 1, 2]"
  by (simp add: upt_rec)

lemma set_cell_Inr:
  "set_cell ctv n cellIdx m = Inr m' \<longleftrightarrow>
     (\<exists>c'. set_neighbors ctv 3 n cellIdx (cells_node_connectivity m) = Inr c' \<and>
       m' = m\<lparr>cells_node_connectivity := c',
              cells_global_index := (cells_global_index m)[cellIdx := int cellIdx],
              cells_partition := (cells_partition m)[cellIdx := defaultPartition]\<rparr>)"
  by (auto simp: set_cell_def set_neighbors_def upt_3 split: sum.splits)

lemma set_cell_Inl:
  "set_cell ctv n cellIdx m = Inl e \<longleftrightarrow>
     set_neighbors ctv 3 n cellIdx (cells_node_connectivity m) = Inl e"
  by (auto simp: set_cell_def set_neighbors_def upt_3 split: sum.splits)

lemma for_each_set_cell:
  "for_each (set_cell ctv n) es m = Inr m' \<Longrightarrow>
     for_each (set_neighbors ctv 3 n) es (cells_node_connectivity m) = Inr (cells_node_connectivity m')
     \<and> nodes_size m' = nodes_size m \<and> nodes_xy m' = nodes_xy m
     \<and> nodes_lonlat m' = nodes_lonlat m \<and> nodes_global_index m' = nodes_global_index m
     \<and> nodes_remote_index m' = nodes_remote_index m \<and> nodes_partition m' = nodes_partition m
     \<and> nodes_ghost m' = nodes_ghost m \<and> nodes_flags m' = nodes_flags m
     \<and> nodes_cell_connectivity m' = nodes_cell_connectivity m
     \<and> nodes_edge_connectivity m' = nodes_edge_connectivity m
     \<and> cells_size m' = cells_size m
     \<and> cells_edge_connectivity m' = cells_edge_connectivity m
     \<and> edges_size m' = edges_size m
     \<and> edges_cell_connectivity m' = edges_cell_connectivity m
     \<and> edges_node_connectivity m' = edges_node_connectivity m"
proof (induction es arbitrary: m)
  case Nil
  then show ?case by simp
next
  case (Cons a es)
  from Cons.prems obtain m1 where s: "set_cell ctv n a m = Inr m1"
    and r: "for_each (set_cell ctv n) es m1 = Inr m'"
    by (auto split: sum.splits)
  from s obtain c1 where c1: "set_neighbors ctv 3 n a (cells_node_connectivity m) = Inr c1"
    and m1: "m1 = m\<lparr>cells_node_connectivity := c1,
              cells_global_index := (cells_global_index m)[a := int a],
              cells_partition := (cells_partition m)[a := defaultPartition]\<rparr>"
    by (auto simp: set_cell_Inr)
  from Cons.IH[OF r] c1 show ?case
    by (simp add: m1)
qed

lemma for_each_set_cell_ok:
  "for_each (set_neighbors ctv 3 n) es (cells_node_connectivity m) = Inr c' \<Longrightarrow>
     \<exists>m'. for_each (set_cell ctv n) es m = Inr m'"
proof (induction es arbitrary: m)
  case Nil
  then show ?case by simp
next
  case (Cons a es)
  from Cons.prems obtain c1 where c1: "set_neighbors ctv 3 n a (cells_node_connectivity m) = Inr c1"
    and r: "for_each (set_neighbors ctv 3 n) es c1 = Inr c'"
    by (auto split: sum.splits)
  define m1 where "m1 = m\<lparr>cells_node_connectivity := c1,
              cells_global_index := (cells_global_index m)[a := int a],
              cells_partition := (cells_partition m)[a := defaultPartition]\<rparr>"
  have s: "set_cell ctv n a m = Inr m1"
    using c1 by (simp add: set_cell_Inr m1_def)
  have "for_each (set_neighbors ctv 3 n) es (cells_node_connectivity m1) = Inr c'"
    using r by (simp add: m1_def)
  from Cons.IH[OF this] s show ?case by simp
qed


lemma fold_update_length:
  "length (fold (\<lambda>j ys. ys[j := g j]) js xs) = length xs"
  by (induction js arbitrary: xs) simp_all

lemma fold_update_other:
  "i \<notin> set js \<Longrightarrow> fold (\<lambda>j ys. ys[j := g j]) js xs ! i = xs ! i"
  by (induction js arbitrary: xs) simp_all

lemma fold_update_nth:
  "i \<in> set js \<Longrightarrow> i < length xs \<Longrightarrow> fold (\<lambda>j ys. ys[j := g j]) js xs ! i = g i"
proof (induction js arbitrary: xs)
  case Nil
  then show ?case by simp
next
  case (Cons j js)
  show ?case
  proof (cases "i \<in> set js")
    case True
    with Cons show ?thesis by simp
  next
    case False
    with Cons.prems have "i = j" by simp
    with False Cons.prems(2) show ?thesis by (simp add: fold_update_other)
  qed
qed

lemma fold_set_node:
  "nodes_lonlat (fold (set_node lon lat) js m) =
     fold (\<lambda>j ys. ys[j := (radToLon (lon ! j), radToLat (lat ! j))]) js (nodes_lonlat m)
   \<and> nodes_size (fold (set_node lon lat) js m) = nodes_size m
   \<and> nodes_cell_connectivity (fold (set_node lon lat) js m) = nodes_cell_connectivity m
   \<and> nodes_edge_connectivity (fold (set_node lon lat) js m) = nodes_edge_connectivity m
   \<and> cells_size (fold (set_node lon lat) js m) = cells_size m
   \<and> cells_node_connectivity (fold (set_node lon lat) js m) = cells_node_connectivity m
   \<and> cells_edge_connectivity (fold (set_node lon lat) js m) = cells_edge_connectivity m
   \<and> edges_size (fold (set_node lon lat) js m) = edges_size m
   \<and> edges_cell_connectivity (fold (set_node lon lat) js m) = edges_cell_connectivity m
   \<and> edges_node_connectivity (fold (set_node lon lat) js m) = edges_node_connectivity m"
  by (induction js arbitrary: m) (simp_all add: set_node_def)

lemma dims_singleton: "length ds = 1 \<Longrightarrow> ds = [ds ! 0]"
  by (cases ds) simp_all

lemma dims_pair: "length ds = 2 \<Longrightarrow> ds = [ds ! 0, ds ! 1]"
  by (cases ds; cases "tl ds") auto

lemma NodesFromNetCDF_True:
  assumes "NodesFromNetCDF f m = Inr (True, m')"
    and "f ''vlon'' = Some vlon" and "f ''vlat'' = Some vlat"
  shows "dims vlon = [nodes_size m']" and "dims vlat = [nodes_size m']"
    and "0 < nodes_size m'"
    and "length (nodes_lonlat m') = nodes_size m'"
    and "\<And>i. i < nodes_size m' \<Longrightarrow>
           nodes_lonlat m' ! i = (radToLon (doubles vlon i), radToLat (doubles vlat i))"
proof -
  define n where "n = dims vlat ! 0"
  define lon where "lon = map (doubles vlon) [0..<dims vlon ! 0]"
  define lat where "lat = map (doubles vlat) [0..<n]"
  from assms have l1: "length (dims vlon) = 1" and l2: "length (dims vlat) = 1"
    by (auto simp: NodesFromNetCDF_def LoadField_double_def split: if_splits)
  from assms l1 l2 have sz: "dims vlon ! 0 = n" "0 < n"
    and m': "m' = fold (set_node lon lat) [0..<n] (nodes_resize n m)"
    by (auto simp: NodesFromNetCDF_def LoadField_double_def n_def lon_def lat_def Let_def split: if_splits)
  have size: "nodes_size m' = n"
    by (simp add: m' fold_set_node nodes_resize_def)
  show "dims vlon = [nodes_size m']" using dims_singleton[OF l1] sz size by simp
  show "dims vlat = [nodes_size m']" using dims_singleton[OF l2] n_def size by simp
  show "0 < nodes_size m'" using sz size by simp
  have ll: "nodes_lonlat m' =
     fold (\<lambda>j ys. ys[j := (radToLon (lon ! j), radToLat (lat ! j))]) [0..<n] (resize_field n (0, 0) (nodes_lonlat m))"
    by (simp add: m' fold_set_node nodes_resize_def)
  have rl: "length (resize_field n (0::real, 0::real) (nodes_lonlat m)) = n"
    by (simp add: resize_field_def)
  show "length (nodes_lonlat m') = nodes_size m'"
    by (simp add: ll fold_update_length rl size)
  show "nodes_lonlat m' ! i = (radToLon (doubles vlon i), radToLat (doubles vlat i))"
    if "i < nodes_size m'" for i
  proof -
    from that size have i: "i < n" by simp
    then have "nodes_lonlat m' ! i = (radToLon (lon ! i), radToLat (lat ! i))"
      unfolding ll by (intro fold_update_nth) (simp_all add: rl)
    with i sz show ?thesis by (simp add: lon_def lat_def)
  qed
qed

lemma NodesFromNetCDF_tables:
  assumes "NodesFromNetCDF f m = Inr (ok, m')"
  shows "nodes_cell_connectivity m' = nodes_cell_connectivity m
   \<and> nodes_edge_connectivity m' = nodes_edge_connectivity m
   \<and> cells_size m' = cells_size m
   \<and> cells_node_connectivity m' = cells_node_connectivity m
   \<and> cells_edge_connectivity m' = cells_edge_connectivity m
   \<and> edges_size m' = edges_size m
   \<and> edges_cell_connectivity m' = edges_cell_connectivity m
   \<and> edges_node_connectivity m' = edges_node_connectivity m"
  using assms
  by (auto simp: NodesFromNetCDF_def Let_def fold_set_node nodes_resize_def split: sum.splits if_splits)


lemma CellsFromNetCDF_preserves:
  assumes "CellsFromNetCDF f m = Inr (ok, m')"
  shows "nodes_size m' = nodes_size m \<and> nodes_xy m' = nodes_xy m
     \<and> nodes_lonlat m' = nodes_lonlat m \<and> nodes_global_index m' = nodes_global_index m
     \<and> nodes_remote_index m' = nodes_remote_index m \<and> nodes_partition m' = nodes_partition m
     \<and> nodes_ghost m' = nodes_ghost m \<and> nodes_flags m' = nodes_flags m
     \<and> nodes_cell_connectivity m' = nodes_cell_connectivity m
     \<and> nodes_edge_connectivity m' = nodes_edge_connectivity m
     \<and> cells_edge_connectivity m' = cells_edge_connectivity m
     \<and> edges_size m' = edges_size m
     \<and> edges_cell_connectivity m' = edges_cell_connectivity m
     \<and> edges_node_connectivity m' = edges_node_connectivity m"
proof (cases ok)
  case False
  with assms have "m' = m"
    by (auto simp: CellsFromNetCDF_def split: sum.splits if_splits prod.splits)
  then show ?thesis by simp
next
  case True
  with assms obtain ctv ncells where
    "for_each (set_cell ctv ncells) [0..<ncells] (cells_add_Triangle ncells m) = Inr m'"
    by (auto simp: CellsFromNetCDF_def split: sum.splits if_splits prod.splits)
  from for_each_set_cell[OF this] show ?thesis
    by (simp add: cells_add_Triangle_def)
qed

lemma CellsFromNetCDF_True:
  assumes "CellsFromNetCDF f m = Inr (True, m')" and "f ''vertex_of_cell'' = Some voc"
  shows "dims voc = [3, dims voc ! 1]"
    and "cells_size m' = cells_size m + dims voc ! 1"
    and "length (rows (cells_node_connectivity m')) = length (rows (cells_node_connectivity m)) + dims voc ! 1"
    and "\<And>e k. e < dims voc ! 1 \<Longrightarrow>
           k < length (rows (cells_node_connectivity (cells_add_Triangle (dims voc ! 1) m)) ! e) \<Longrightarrow>
           rows (cells_node_connectivity m') ! e ! k = ints voc (k * (dims voc ! 1) + e) - 1"
    and "\<And>e. length (rows (cells_node_connectivity m') ! e) =
           length (rows (cells_node_connectivity (cells_add_Triangle (dims voc ! 1) m)) ! e)"
proof -
  from assms(1) obtain ctv vpc ncells where
    ld: "Load2DField_int f ''vertex_of_cell'' = Inr (ctv, vpc, ncells)" and vpc: "vpc = 3"
    and fe: "for_each (set_cell ctv ncells) [0..<ncells] (cells_add_Triangle ncells m) = Inr m'"
    by (auto simp: CellsFromNetCDF_def split: sum.splits if_splits prod.splits)
  note l = Load2DField_int_nth[OF ld assms(2)]
  note c = for_each_set_cell[OF fe]
  define c0 where "c0 = cells_node_connectivity (cells_add_Triangle ncells m)"
  have an: "AddNeighborList f ''vertex_of_cell'' 3 c0 = Inr (True, cells_node_connectivity m')"
    using ld vpc c by (simp add: AddNeighborList_def c0_def)
  note a = AddNeighborList_True[OF an assms(2)]
  show "dims voc = [3, dims voc ! 1]" using dims_pair[OF a(1)] a(2) by simp
  show "cells_size m' = cells_size m + dims voc ! 1"
    using c l(3) by (simp add: cells_add_Triangle_def)
  show "length (rows (cells_node_connectivity m')) = length (rows (cells_node_connectivity m)) + dims voc ! 1"
    using a(4) l(3) by (simp add: c0_def cells_add_Triangle_def connectivity_add_def)
  show "rows (cells_node_connectivity m') ! e ! k = ints voc (k * (dims voc ! 1) + e) - 1"
    if "e < dims voc ! 1"
      and "k < length (rows (cells_node_connectivity (cells_add_Triangle (dims voc ! 1) m)) ! e)"
    for e k
    using a(6)[OF that(1)] that(2) l(3) by (simp add: c0_def)
  show "length (rows (cells_node_connectivity m') ! e) =
           length (rows (cells_node_connectivity (cells_add_Triangle (dims voc ! 1) m)) ! e)" for e
    using a(7) l(3) by (simp add: c0_def)
qed

lemma Minimal_Some:
  assumes "AtlasMeshFromNetCDFMinimal mv fs fn = Inr (Some m)"
  obtains f m1 where "fs fn = Some f"
    and "NodesFromNetCDF f (empty_mesh mv) = Inr (True, m1)"
    and "CellsFromNetCDF f m1 = Inr (True, m)"
  using assms
  by (auto simp: AtlasMeshFromNetCDFMinimal_def split: option.splits sum.splits if_splits prod.splits)

lemma Minimal_Some_tables:
  assumes "AtlasMeshFromNetCDFMinimal mv fs fn = Inr (Some m)"
  shows "nodes_cell_connectivity m = empty_connectivity mv"
    and "nodes_edge_connectivity m = empty_connectivity mv"
    and "cells_edge_connectivity m = empty_connectivity mv"
    and "edges_cell_connectivity m = empty_connectivity mv"
    and "edges_node_connectivity m = empty_connectivity mv"
    and "edges_size m = 0"
proof -
  from assms obtain f m1 where n: "NodesFromNetCDF f (empty_mesh mv) = Inr (True, m1)"
    and c: "CellsFromNetCDF f m1 = Inr (True, m)"
    by (rule Minimal_Some)
  note t = NodesFromNetCDF_tables[OF n] and p = CellsFromNetCDF_preserves[OF c]
  show "nodes_cell_connectivity m = empty_connectivity mv" using t p by (simp add: empty_mesh_def)
  show "nodes_edge_connectivity m = empty_connectivity mv" using t p by (simp add: empty_mesh_def)
  show "cells_edge_connectivity m = empty_connectivity mv" using t p by (simp add: empty_mesh_def)
  show "edges_cell_connectivity m = empty_connectivity mv" using t p by (simp add: empty_mesh_def)
  show "edges_node_connectivity m = empty_connectivity mv" using t p by (simp add: empty_mesh_def)
  show "edges_size m = 0" using t p by (simp add: empty_mesh_def)
qed


lemma fill_all_five:
  "fill_all [s1, s2, s3, s4, s5] m0 = Inr (Some m) \<longleftrightarrow>
     (\<exists>m1 m2 m3 m4. s1 m0 = Inr (True, m1) \<and> s2 m1 = Inr (True, m2) \<and> s3 m2 = Inr (True, m3)
        \<and> s4 m3 = Inr (True, m4) \<and> s5 m4 = Inr (True, m))"
  by (auto split: sum.splits if_splits prod.splits)

lemma fill_all_needs_every_step:
  assumes "fill_all steps m0 = Inr (Some m)" and "step \<in> set steps"
  shows "\<exists>m1 m2. step m1 = Inr (True, m2)"
  using assms
proof (induction steps arbitrary: m0)
  case Nil
  then show ?case by simp
next
  case (Cons s steps)
  from Cons.prems(1) obtain m1 where s: "s m0 = Inr (True, m1)"
    and r: "fill_all steps m1 = Inr (Some m)"
    by (auto split: sum.splits if_splits prod.splits)
  show ?case
  proof (cases "step = s")
    case True
    with s show ?thesis by blast
  next
    case False
    with Cons.prems(2) have "step \<in> set steps" by simp
    from Cons.IH[OF r this] show ?thesis .
  qed
qed

lemma fill_steps_True:
  "fill_edges_cell f m = Inr (True, m') \<longleftrightarrow>
     (\<exists>c. AddNeighborList f ''adjacent_cell_of_edge'' 2 (AllocNbhTable (edges_cell_connectivity m) (edges_size m) 2) = Inr (True, c)
        \<and> m' = m\<lparr>edges_cell_connectivity := c\<rparr>)"
  "fill_edges_node f m = Inr (True, m') \<longleftrightarrow>
     (\<exists>c. AddNeighborList f ''edge_vertices'' 2 (AllocNbhTable (edges_node_connectivity m) (edges_size m) 2) = Inr (True, c)
        \<and> m' = m\<lparr>edges_node_connectivity := c\<rparr>)"
  "fill_nodes_cell f m = Inr (True, m') \<longleftrightarrow>
     (\<exists>c. AddNeighborList f ''cells_of_vertex'' 6 (AllocNbhTable (nodes_cell_connectivity m) (nodes_size m) 6) = Inr (True, c)
        \<and> m' = m\<lparr>nodes_cell_connectivity := c\<rparr>)"
  "fill_nodes_edge f m = Inr (True, m') \<longleftrightarrow>
     (\<exists>c. AddNeighborList f ''edges_of_vertex'' 6 (AllocNbhTable (nodes_edge_connectivity m) (nodes_size m) 6) = Inr (True, c)
        \<and> m' = m\<lparr>nodes_edge_connectivity := c\<rparr>)"
  "fill_cells_edge f m = Inr (True, m') \<longleftrightarrow>
     (\<exists>c. AddNeighborList f ''edge_of_cell'' 3 (AllocNbhTable (cells_edge_connectivity m) (cells_size m) 3) = Inr (True, c)
        \<and> m' = m\<lparr>cells_edge_connectivity := c\<rparr>)"
  by (auto simp: fill_edges_cell_def fill_edges_node_def fill_nodes_cell_def fill_nodes_edge_def
        fill_cells_edge_def cellsPerEdge_def verticesPerEdge_def cellsPerNode_def edgesPerNode_def
        edgesPerCell_def split: sum.splits)

lemma Complete_Some_fill:
  assumes "AtlasMeshFromNetCDFComplete mv fs fn = Inr (Some m)"
  obtains f m0 numEdges where "fs fn = Some f"
    and "AtlasMeshFromNetCDFMinimal mv fs fn = Inr (Some m0)"
    and "0 < numEdges"
    and "fill_all [fill_edges_cell f, fill_edges_node f, fill_nodes_cell f, fill_nodes_edge f,
           fill_cells_edge f] (edges_add_Line numEdges m0) = Inr (Some m)"
proof -
  from assms obtain f m0 ei el where f: "fs fn = Some f"
    and m0: "AtlasMeshFromNetCDFMinimal mv fs fn = Inr (Some m0)"
    and ne: "\<not> (length (ei :: idx_t list) = 0 \<and> length (el :: idx_t list) = 0)"
    and fa: "fill_all [fill_edges_cell f, fill_edges_node f, fill_nodes_cell f, fill_nodes_edge f,
           fill_cells_edge f] (edges_add_Line (max (length ei) (length el)) m0) = Inr (Some m)"
    by (auto simp: AtlasMeshFromNetCDFComplete_def Let_def simp del: fill_all.simps
        split: option.splits sum.splits if_splits)
  from ne have "0 < max (length ei) (length el)" by (auto simp: max_def)
  from that[OF f m0 this fa] show ?thesis .
qed

lemma Complete_Some:
  assumes "AtlasMeshFromNetCDFComplete mv fs fn = Inr (Some m)"
  shows "\<exists>f (m0::mesh) numEdges. fs fn = Some f
    \<and> AtlasMeshFromNetCDFMinimal mv fs fn = Inr (Some m0)
    \<and> 0 < numEdges
    \<and> AddNeighborList f ''adjacent_cell_of_edge'' 2
           (AllocNbhTable (empty_connectivity mv) numEdges 2) = Inr (True, edges_cell_connectivity m)
    \<and> AddNeighborList f ''edge_vertices'' 2
           (AllocNbhTable (connectivity_add numEdges 2 mv (empty_connectivity mv)) numEdges 2)
         = Inr (True, edges_node_connectivity m)
    \<and> AddNeighborList f ''cells_of_vertex'' 6
           (AllocNbhTable (empty_connectivity mv) (nodes_size m0) 6) = Inr (True, nodes_cell_connectivity m)
    \<and> AddNeighborList f ''edges_of_vertex'' 6
           (AllocNbhTable (empty_connectivity mv) (nodes_size m0) 6) = Inr (True, nodes_edge_connectivity m)
    \<and> AddNeighborList f ''edge_of_cell'' 3
           (AllocNbhTable (empty_connectivity mv) (cells_size m0) 3) = Inr (True, cells_edge_connectivity m)
    \<and> m = m0\<lparr>edges_size := numEdges,
              edges_cell_connectivity := edges_cell_connectivity m,
              edges_node_connectivity := edges_node_connectivity m,
              nodes_cell_connectivity := nodes_cell_connectivity m,
              nodes_edge_connectivity := nodes_edge_connectivity m,
              cells_edge_connectivity := cells_edge_connectivity m\<rparr>"
proof -
  from assms obtain f m0 numEdges where f: "fs fn = Some f"
    and m0: "AtlasMeshFromNetCDFMinimal mv fs fn = Inr (Some m0)"
    and ne: "0 < numEdges"
    and fa: "fill_all [fill_edges_cell f, fill_edges_node f, fill_nodes_cell f, fill_nodes_edge f,
           fill_cells_edge f] (edges_add_Line numEdges m0) = Inr (Some m)"
    by (rule Complete_Some_fill)
  note t = Minimal_Some_tables[OF m0]
  from fa[unfolded fill_all_five fill_steps_True] obtain c1 c2 c3 c4 c5 where
    c1: "AddNeighborList f ''adjacent_cell_of_edge'' 2
           (AllocNbhTable (empty_connectivity mv) numEdges 2) = Inr (True, c1)"
    and c2: "AddNeighborList f ''edge_vertices'' 2
           (AllocNbhTable (connectivity_add numEdges 2 mv (empty_connectivity mv)) numEdges 2)
         = Inr (True, c2)"
    and c3: "AddNeighborList f ''cells_of_vertex'' 6
           (AllocNbhTable (empty_connectivity mv) (nodes_size m0) 6) = Inr (True, c3)"
    and c4: "AddNeighborList f ''edges_of_vertex'' 6
           (AllocNbhTable (empty_connectivity mv) (nodes_size m0) 6) = Inr (True, c4)"
    and c5: "AddNeighborList f ''edge_of_cell'' 3
           (AllocNbhTable (empty_connectivity mv) (cells_size m0) 3) = Inr (True, c5)"
    and m: "m = (edges_add_Line numEdges m0)\<lparr>edges_cell_connectivity := c1,
                edges_node_connectivity := c2, nodes_cell_connectivity := c3,
                nodes_edge_connectivity := c4, cells_edge_connectivity := c5\<rparr>"
    by (auto simp: edges_add_Line_def t empty_connectivity_def)
  have "m = m0\<lparr>edges_size := numEdges,
              edges_cell_connectivity := edges_cell_connectivity m,
              edges_node_connectivity := edges_node_connectivity m,
              nodes_cell_connectivity := nodes_cell_connectivity m,
              nodes_edge_connectivity := nodes_edge_connectivity m,
              cells_edge_connectivity := cells_edge_connectivity m\<rparr>"
    using t by (simp add: m edges_add_Line_def)
  moreover have "edges_cell_connectivity m = c1" "edges_node_connectivity m = c2"
    "nodes_cell_connectivity m = c3" "nodes_edge_connectivity m = c4"
    "cells_edge_connectivity m = c5"
    by (simp_all add: m)
  ultimately show ?thesis
    using f m0 ne c1 c2 c3 c4 c5 by (intro exI[of _ f] exI[of _ m0] exI[of _ numEdges]) simp
qed

lemmas example_defs = example_fs_def example_complete_def example_no_edge_of_cell_def
  example_minimal_def example_var_def

lemmas importer_defs = AtlasMeshFromNetCDFComplete_def AtlasMeshFromNetCDFMinimal_def
  NodesFromNetCDF_def CellsFromNetCDF_def LoadField_double_def LoadField_int_def
  Load2DField_int_def fill_edges_cell_def fill_edges_node_def fill_nodes_cell_def
  fill_nodes_edge_def fill_cells_edge_def AddNeighborList_def AllocNbhTable_def
  set_neighbors_def nodes_resize_def resize_field_def empty_mesh_def set_node_def set_cell_def
  connectivity_set_def cells_add_Triangle_def edges_add_Line_def connectivity_add_def
  empty_connectivity_def cellsPerEdge_def verticesPerEdge_def cellsPerNode_def edgesPerNode_def
  edgesPerCell_def defaultPartition_def Let_def

lemma alloc_row_length:
  assumes "e < n"
  shows "length (rows (AllocNbhTable (empty_connectivity mv) n cols) ! e) = cols"
  using assms by (simp add: AllocNbhTable_def connectivity_add_def empty_connectivity_def)

lemma alloc_rows_length:
  "length (rows (AllocNbhTable (empty_connectivity mv) n cols)) = n"
  by (simp add: AllocNbhTable_def connectivity_add_def empty_connectivity_def)

lemma alloc_twice_row_length:
  assumes "e < n + n"
  shows "length (rows (AllocNbhTable (connectivity_add n cols mv (empty_connectivity mv)) n cols) ! e) = cols"
proof -
  have "rows (AllocNbhTable (connectivity_add n cols mv (empty_connectivity mv)) n cols)
      = replicate (n + n) (replicate cols mv)"
    by (simp add: AllocNbhTable_def connectivity_add_def empty_connectivity_def replicate_add)
  with assms show ?thesis by simp
qed

lemma alloc_twice_rows_length:
  "length (rows (AllocNbhTable (connectivity_add n cols mv (empty_connectivity mv)) n cols)) = n + n"
  by (simp add: AllocNbhTable_def connectivity_add_def empty_connectivity_def)

lemma filled_table:
  assumes a: "AddNeighborList f name cols c = Inr (True, c')" and v: "f name = Some v"
    and len: "\<And>e. e < length (rows c) \<Longrightarrow> length (rows c ! e) = cols"
    and e: "e < dims v ! 1" and k: "k < cols"
  shows "rows c' ! e ! k = ints v (k * (dims v ! 1) + e) - 1"
proof -
  note t = AddNeighborList_True[OF a v]
  from e t(5) have "e < length (rows c)" by simp
  from len[OF this] k have "k < length (rows c ! e)" by simp
  from t(6)[OF e this] show ?thesis .
qed

lemma Complete_tables:
  assumes c: "AtlasMeshFromNetCDFComplete mv fs fn = Inr (Some m)" and f: "fs fn = Some f"
    and t: "(name, cols, tbl) \<in> set neighbor_tables" and v: "f name = Some v"
    and e: "e < dims v ! 1" and k: "k < cols"
  shows "rows (tbl m) ! e ! k = ints v (k * (dims v ! 1) + e) - 1"
proof -
  from Complete_Some[OF c] obtain f' and m0 :: mesh and numEdges where f': "fs fn = Some f'"
    and c1: "AddNeighborList f' ''adjacent_cell_of_edge'' 2
           (AllocNbhTable (empty_connectivity mv) numEdges 2) = Inr (True, edges_cell_connectivity m)"
    and c2: "AddNeighborList f' ''edge_vertices'' 2
           (AllocNbhTable (connectivity_add numEdges 2 mv (empty_connectivity mv)) numEdges 2)
         = Inr (True, edges_node_connectivity m)"
    and c3: "AddNeighborList f' ''cells_of_vertex'' 6
           (AllocNbhTable (empty_connectivity mv) (nodes_size m0) 6) = Inr (True, nodes_cell_connectivity m)"
    and c4: "AddNeighborList f' ''edges_of_vertex'' 6
           (AllocNbhTable (empty_connectivity mv) (nodes_size m0) 6) = Inr (True, nodes_edge_connectivity m)"
    and c5: "AddNeighborList f' ''edge_of_cell'' 3
           (AllocNbhTable (empty_connectivity mv) (cells_size m0) 3) = Inr (True, cells_edge_connectivity m)"
    by blast
  from f f' have ff: "f' = f" by simp
  from t have "(name = ''adjacent_cell_of_edge'' \<and> cols = 2 \<and> tbl = edges_cell_connectivity)
      \<or> (name = ''edge_vertices'' \<and> cols = 2 \<and> tbl = edges_node_connectivity)
      \<or> (name = ''cells_of_vertex'' \<and> cols = 6 \<and> tbl = nodes_cell_connectivity)
      \<or> (name = ''edges_of_vertex'' \<and> cols = 6 \<and> tbl = nodes_edge_connectivity)
      \<or> (name = ''edge_of_cell'' \<and> cols = 3 \<and> tbl = cells_edge_connectivity)"
    unfolding neighbor_tables_def cellsPerEdge_def verticesPerEdge_def cellsPerNode_def
          edgesPerNode_def edgesPerCell_def by simp
  then show ?thesis
  proof (elim disjE conjE)
    assume 1: "name = ''adjacent_cell_of_edge''" "cols = 2" "tbl = edges_cell_connectivity"
    show ?thesis unfolding 1
      by (rule filled_table[OF c1[unfolded ff] v[unfolded 1] _ e k[unfolded 1]])
         (simp add: alloc_rows_length alloc_row_length)
  next
    assume 2: "name = ''edge_vertices''" "cols = 2" "tbl = edges_node_connectivity"
    show ?thesis unfolding 2
      by (rule filled_table[OF c2[unfolded ff] v[unfolded 2] _ e k[unfolded 2]])
         (simp add: alloc_twice_rows_length alloc_twice_row_length)
  next
    assume 3: "name = ''cells_of_vertex''" "cols = 6" "tbl = nodes_cell_connectivity"
    show ?thesis unfolding 3
      by (rule filled_table[OF c3[unfolded ff] v[unfolded 3] _ e k[unfolded 3]])
         (simp add: alloc_rows_length alloc_row_length)
  next
    assume 4: "name = ''edges_of_vertex''" "cols = 6" "tbl = nodes_edge_connectivity"
    show ?thesis unfolding 4
      by (rule filled_table[OF c4[unfolded ff] v[unfolded 4] _ e k[unfolded 4]])
         (simp add: alloc_rows_length alloc_row_length)
  next
    assume 5: "name = ''edge_of_cell''" "cols = 3" "tbl = cells_edge_connectivity"
    show ?thesis unfolding 5
      by (rule filled_table[OF c5[unfolded ff] v[unfolded 5] _ e k[unfolded 5]])
         (simp add: alloc_rows_length alloc_row_length)
  qed
qed


lemma list3_eq:
  assumes "length xs = 3" and "xs ! 0 = a" and "xs ! 1 = b" and "xs ! 2 = c"
  shows "xs = [a, b, c]"
proof -
  from assms(1) obtain x y z where "xs = [x, y, z]"
    by (cases xs; cases "tl xs"; cases "tl (tl xs)") auto
  with assms(2-4) show ?thesis by simp
qed

lemma Minimal_Some_converted:
  assumes m: "AtlasMeshFromNetCDFMinimal mv fs fn = Inr (Some m)" and f: "fs fn = Some f"
    and vlon: "f ''vlon'' = Some vlon" and vlat: "f ''vlat'' = Some vlat"
    and voc: "f ''vertex_of_cell'' = Some voc"
  shows "dims vlon = [nodes_size m]" and "dims vlat = [nodes_size m]"
    and "length (nodes_lonlat m) = nodes_size m"
    and "\<And>i. i < nodes_size m \<Longrightarrow>
           nodes_lonlat m ! i = (doubles vlon i / pi * 180, doubles vlat i / (pi / 2) * 90)"
    and "dims voc = [3, cells_size m]"
    and "length (rows (cells_node_connectivity m)) = cells_size m"
    and "\<And>c. c < cells_size m \<Longrightarrow>
           rows (cells_node_connectivity m) ! c =
             [ints voc (0 * cells_size m + c) - 1, ints voc (1 * cells_size m + c) - 1,
              ints voc (2 * cells_size m + c) - 1]"
proof -
  from m obtain f' m1 where f': "fs fn = Some f'"
    and n: "NodesFromNetCDF f' (empty_mesh mv) = Inr (True, m1)"
    and c: "CellsFromNetCDF f' m1 = Inr (True, m)"
    by (rule Minimal_Some)
  from f f' have ff: "f' = f" by simp
  note N = NodesFromNetCDF_True[OF n[unfolded ff] vlon vlat]
  note T = NodesFromNetCDF_tables[OF n]
  note P = CellsFromNetCDF_preserves[OF c]
  note C = CellsFromNetCDF_True[OF c[unfolded ff] voc]
  have sz: "nodes_size m = nodes_size m1" and ll: "nodes_lonlat m = nodes_lonlat m1"
    using P by simp_all
  have c1: "cells_size m1 = 0" and r1: "rows (cells_node_connectivity m1) = []"
    using T by (simp_all add: empty_mesh_def empty_connectivity_def)
  have cs: "cells_size m = dims voc ! 1" using C(2) c1 by simp
  show "dims vlon = [nodes_size m]" using N(1) sz by simp
  show "dims vlat = [nodes_size m]" using N(2) sz by simp
  show "length (nodes_lonlat m) = nodes_size m" using N(4) sz ll by simp
  show "nodes_lonlat m ! i = (doubles vlon i / pi * 180, doubles vlat i / (pi / 2) * 90)"
    if "i < nodes_size m" for i
    using N(5)[of i] that sz ll by (simp add: radToLon_def radToLat_def M_PI_def)
  show "dims voc = [3, cells_size m]" using C(1) cs by simp
  show "length (rows (cells_node_connectivity m)) = cells_size m" using C(3) r1 cs by simp
  show "rows (cells_node_connectivity m) ! c =
             [ints voc (0 * cells_size m + c) - 1, ints voc (1 * cells_size m + c) - 1,
              ints voc (2 * cells_size m + c) - 1]"
    if "c < cells_size m" for c
  proof -
    from that cs have c': "c < dims voc ! 1" by simp
    have len0: "length (rows (cells_node_connectivity (cells_add_Triangle (dims voc ! 1) m1)) ! c) = 3"
      using c' r1 by (simp add: cells_add_Triangle_def connectivity_add_def)
    have len: "length (rows (cells_node_connectivity m) ! c) = 3"
      using C(5)[of c] len0 by simp
    have e: "rows (cells_node_connectivity m) ! c ! k = ints voc (k * cells_size m + c) - 1"
      if "k < 3" for k
      using C(4)[OF c', of k] that len0 cs by simp
    show ?thesis
      by (rule list3_eq[OF len]) (use e[of 0] e[of 1] e[of 2] in simp_all)
  qed
qed

text \<open>
  Claim C6. In the mesh of a file that the importer accepts (either entry point returns a
  mesh), node \<open>i\<close> has the longitude \<open>vlon[i] / pi * 180\<close> and the latitude
  \<open>vlat[i] / (pi / 2) * 90\<close>; cell \<open>c\<close> has the three nodes
  \<open>vertex_of_cell[k * ncells + c] - 1\<close>, the variable being read column-major; and after
  \<open>AtlasMeshFromNetCDFComplete\<close> entry \<open>k\<close> of row \<open>e\<close> of every neighbour table is the
  value of its variable at \<open>k * numY + e\<close>, minus 1.
\<close>

theorem import_converts_radians_and_index_base:
  assumes f: "fs fn = Some f"
    and vlon: "f ''vlon'' = Some vlon" and vlat: "f ''vlat'' = Some vlat"
    and voc: "f ''vertex_of_cell'' = Some voc"
    and accepted: "AtlasMeshFromNetCDFMinimal mv fs fn = Inr (Some m)
                 \<or> AtlasMeshFromNetCDFComplete mv fs fn = Inr (Some m)"
  shows "length (nodes_lonlat m) = nodes_size m \<and> dims vlon = [nodes_size m]
       \<and> dims vlat = [nodes_size m]
       \<and> (\<forall>i<nodes_size m.
            nodes_lonlat m ! i = (doubles vlon i / pi * 180, doubles vlat i / (pi / 2) * 90))
       \<and> length (rows (cells_node_connectivity m)) = cells_size m
       \<and> dims voc = [3, cells_size m]
       \<and> (\<forall>c<cells_size m.
            rows (cells_node_connectivity m) ! c =
              [ints voc (0 * cells_size m + c) - 1, ints voc (1 * cells_size m + c) - 1,
               ints voc (2 * cells_size m + c) - 1])
       \<and> (AtlasMeshFromNetCDFComplete mv fs fn = Inr (Some m) \<longrightarrow>
            (\<forall>(name, cols, tbl)\<in>set neighbor_tables. \<forall>v. f name = Some v \<longrightarrow>
               (\<forall>e<dims v ! 1. \<forall>k<cols.
                  rows (tbl m) ! e ! k = ints v (k * (dims v ! 1) + e) - 1)))"
proof -
  from accepted obtain m0 :: mesh where m0: "AtlasMeshFromNetCDFMinimal mv fs fn = Inr (Some m0)"
    and sz: "nodes_size m = nodes_size m0" and ll: "nodes_lonlat m = nodes_lonlat m0"
    and cs: "cells_size m = cells_size m0"
    and cn: "cells_node_connectivity m = cells_node_connectivity m0"
  proof
    assume "AtlasMeshFromNetCDFMinimal mv fs fn = Inr (Some m)"
    then show ?thesis by (intro that[of m]) simp_all
  next
    assume "AtlasMeshFromNetCDFComplete mv fs fn = Inr (Some m)"
    from Complete_Some[OF this] obtain m0 :: mesh and numEdges where
      m0: "AtlasMeshFromNetCDFMinimal mv fs fn = Inr (Some m0)"
      and m: "m = m0\<lparr>edges_size := numEdges,
              edges_cell_connectivity := edges_cell_connectivity m,
              edges_node_connectivity := edges_node_connectivity m,
              nodes_cell_connectivity := nodes_cell_connectivity m,
              nodes_edge_connectivity := nodes_edge_connectivity m,
              cells_edge_connectivity := cells_edge_connectivity m\<rparr>"
      by blast
    have "nodes_size m = nodes_size m0" "nodes_lonlat m = nodes_lonlat m0"
      "cells_size m = cells_size m0" "cells_node_connectivity m = cells_node_connectivity m0"
      using arg_cong[OF m, of nodes_size] arg_cong[OF m, of nodes_lonlat]
        arg_cong[OF m, of cells_size] arg_cong[OF m, of cells_node_connectivity]
      by simp_all
    with m0 show ?thesis by (rule that)
  qed
  note M = Minimal_Some_converted[OF m0 f vlon vlat voc]
  have tables: "rows (tbl m) ! e ! k = ints v (k * (dims v ! 1) + e) - 1"
    if "AtlasMeshFromNetCDFComplete mv fs fn = Inr (Some m)"
      and "(name, cols, tbl) \<in> set neighbor_tables" and "f name = Some v"
      and "e < dims v ! 1" and "k < cols"
    for name cols tbl v e k
    using that f by (intro Complete_tables[where name = name and cols = cols]) 
  have nodes: "\<forall>i<nodes_size m.
            nodes_lonlat m ! i = (doubles vlon i / pi * 180, doubles vlat i / (pi / 2) * 90)"
    using M(4) unfolding sz ll by blast
  have cells: "\<forall>c<cells_size m.
            rows (cells_node_connectivity m) ! c =
              [ints voc (0 * cells_size m + c) - 1, ints voc (1 * cells_size m + c) - 1,
               ints voc (2 * cells_size m + c) - 1]"
    using M(7) unfolding cs cn by blast
  have nbh: "AtlasMeshFromNetCDFComplete mv fs fn = Inr (Some m) \<longrightarrow>
            (\<forall>(name, cols, tbl)\<in>set neighbor_tables. \<forall>v. f name = Some v \<longrightarrow>
               (\<forall>e<dims v ! 1. \<forall>k<cols.
                  rows (tbl m) ! e ! k = ints v (k * (dims v ! 1) + e) - 1))"
  proof (intro impI ballI)
    fix x assume c: "AtlasMeshFromNetCDFComplete mv fs fn = Inr (Some m)"
      and x: "x \<in> set neighbor_tables"
    obtain name cols tbl where xe: "x = (name, cols, tbl)" by (cases x)
    have "\<forall>v. f name = Some v \<longrightarrow>
               (\<forall>e<dims v ! 1. \<forall>k<cols.
                  rows (tbl m) ! e ! k = ints v (k * (dims v ! 1) + e) - 1)"
      using tables[OF c x[unfolded xe]] by blast
    then show "case x of (name, cols, tbl) \<Rightarrow> \<forall>v. f name = Some v \<longrightarrow>
               (\<forall>e<dims v ! 1. \<forall>k<cols.
                  rows (tbl m) ! e ! k = ints v (k * (dims v ! 1) + e) - 1)"
      unfolding xe by simp
  qed
  from M(3) have a: "length (nodes_lonlat m) = nodes_size m" unfolding sz ll .
  from M(1) have b: "dims vlon = [nodes_size m]" unfolding sz .
  from M(2) have c: "dims vlat = [nodes_size m]" unfolding sz .
  from M(6) have d: "length (rows (cells_node_connectivity m)) = cells_size m" unfolding cs cn .
  from M(5) have e: "dims voc = [3, cells_size m]" unfolding cs .
  from a b c nodes d e cells nbh show ?thesis by (intro conjI)
qed


lemma example_complete_accepted:
  "\<exists>m. AtlasMeshFromNetCDFComplete (- 1) example_fs ''complete.nc'' = Inr (Some m)"
  by (simp add: importer_defs example_defs eval_nat_numeral)

theorem import_converts_radians_and_index_base_witness:
  "\<exists>m. AtlasMeshFromNetCDFComplete (- 1) example_fs ''complete.nc'' = Inr (Some m)
     \<and> nodes_size m = 3 \<and> cells_size m = 1
     \<and> nodes_lonlat m ! 1 = (1 / pi * 180, 0 / (pi / 2) * 90)
     \<and> nodes_lonlat m ! 2 = (0 / pi * 180, 1 / (pi / 2) * 90)
     \<and> rows (cells_node_connectivity m) ! 0 = [0, 1, 2]
     \<and> rows (edges_node_connectivity m) ! 2 ! 1 = 0
     \<and> rows (nodes_cell_connectivity m) ! 0 ! 1 = - 1"
proof -
  from example_complete_accepted obtain m :: mesh where
    m: "AtlasMeshFromNetCDFComplete (- 1) example_fs ''complete.nc'' = Inr (Some m)" by blast
  have f: "example_fs ''complete.nc'' = Some example_complete"
    by (simp add: example_fs_def)
  have vlon: "example_complete ''vlon'' = Some (example_var [3] [0, 1, 0])"
    and vlat: "example_complete ''vlat'' = Some (example_var [3] [0, 0, 1])"
    and voc: "example_complete ''vertex_of_cell'' = Some (example_var [3, 1] [1, 2, 3])"
    and ev: "example_complete ''edge_vertices'' = Some (example_var [2, 3] [1, 2, 3, 2, 3, 1])"
    and cv: "example_complete ''cells_of_vertex'' =
               Some (example_var [6, 3] [1, 1, 1, 0, 0, 0, 0, 0, 0, 0, 0, 0, 0, 0, 0, 0, 0, 0])"
    by (simp_all add: example_complete_def example_no_edge_of_cell_def example_minimal_def)
  note t = import_converts_radians_and_index_base[OF f vlon vlat voc disjI2[OF m]]
  from t have sz: "nodes_size m = 3" and cs: "cells_size m = 1"
    by (simp_all add: example_var_def)
  from t sz have n1: "nodes_lonlat m ! 1 = (1 / pi * 180, 0 / (pi / 2) * 90)"
    and n2: "nodes_lonlat m ! 2 = (0 / pi * 180, 1 / (pi / 2) * 90)"
    by (simp_all add: example_var_def)
  from t cs have c0: "rows (cells_node_connectivity m) ! 0 = [0, 1, 2]"
    by (simp add: example_var_def)
  from t m have tb: "\<forall>(name, cols, tbl)\<in>set neighbor_tables. \<forall>v. example_complete name = Some v \<longrightarrow>
               (\<forall>e<dims v ! 1. \<forall>k<cols.
                  rows (tbl m) ! e ! k = ints v (k * (dims v ! 1) + e) - 1)"
    by blast
  from tb ev have e: "rows (edges_node_connectivity m) ! 2 ! 1 = 0"
    by (simp add: neighbor_tables_def verticesPerEdge_def example_var_def)
  from tb cv have c: "rows (nodes_cell_connectivity m) ! 0 ! 1 = - 1"
    by (simp add: neighbor_tables_def cellsPerNode_def example_var_def)
  from m sz cs n1 n2 c0 e c show ?thesis by blast
qed

text \<open>
  Claim C10. \<open>AddNeighborList\<close> stores every slot of the table it fills as the file's
  value minus 1, whatever the value is: a padded slot that holds the file's sentinel \<open>s\<close>
  holds \<open>s - 1\<close> afterwards. The table's marker \<open>missing_value\<close> plays no part, and the slot
  equals the marker only if \<open>s\<close> happens to be the marker plus 1.
\<close>

theorem AddNeighborList_subtracts_one_from_padding:
  assumes "AddNeighborList dataFile nbhListName yPerXExpected c = Inr (True, c')"
    and "dataFile nbhListName = Some v"
    and "elemIdx < dims v ! 1" and "innerIdx < length (rows c ! elemIdx)"
    and "ints v (innerIdx * (dims v ! 1) + elemIdx) = s"
  shows "rows c' ! elemIdx ! innerIdx = s - 1 \<and> missing_value c' = missing_value c
       \<and> (rows c' ! elemIdx ! innerIdx = missing_value c') = (s = missing_value c + 1)"
proof -
  note t = AddNeighborList_True[OF assms(1,2)]
  from t(6)[OF assms(3,4)] assms(5) have "rows c' ! elemIdx ! innerIdx = s - 1" by simp
  moreover have "(s - 1 = missing_value c) = (s = missing_value c + 1)" by (rule diff_eq_eq)
  ultimately show ?thesis using t(3) by simp
qed

theorem AddNeighborList_subtracts_one_from_padding_witness:
  "\<exists>c'. AddNeighborList example_complete ''cells_of_vertex'' 6
           (AllocNbhTable (empty_connectivity 100) 3 6) = Inr (True, c')
      \<and> ints (example_var [6, 3] [1, 1, 1, 0, 0, 0, 0, 0, 0, 0, 0, 0, 0, 0, 0, 0, 0, 0]) (1 * 3 + 0) = 0
      \<and> rows c' ! 0 ! 1 = 0 - 1 \<and> missing_value c' = 100 \<and> rows c' ! 0 ! 1 \<noteq> missing_value c'"
proof -
  define c where "c = AllocNbhTable (empty_connectivity 100) 3 6"
  have "\<exists>c'. AddNeighborList example_complete ''cells_of_vertex'' 6 c = Inr (True, c')"
    by (simp add: c_def importer_defs example_defs eval_nat_numeral)
  then obtain c' where a: "AddNeighborList example_complete ''cells_of_vertex'' 6 c = Inr (True, c')"
    by blast
  have v: "example_complete ''cells_of_vertex'' =
               Some (example_var [6, 3] [1, 1, 1, 0, 0, 0, 0, 0, 0, 0, 0, 0, 0, 0, 0, 0, 0, 0])"
    by (simp add: example_complete_def example_no_edge_of_cell_def)
  have e: "0 < dims (example_var [6, 3] [1, 1, 1, 0, 0, 0, 0, 0, 0, 0, 0, 0, 0, 0, 0, 0, 0, 0]) ! 1"
    by (simp add: example_var_def)
  have k: "1 < length (rows c ! 0)"
    by (simp add: c_def AllocNbhTable_def connectivity_add_def empty_connectivity_def eval_nat_numeral)
  have s: "ints (example_var [6, 3] [1, 1, 1, 0, 0, 0, 0, 0, 0, 0, 0, 0, 0, 0, 0, 0, 0, 0])
             (1 * (dims (example_var [6, 3] [1, 1, 1, 0, 0, 0, 0, 0, 0, 0, 0, 0, 0, 0, 0, 0, 0, 0]) ! 1) + 0) = 0"
    by (simp add: example_var_def)
  have mv: "missing_value c = 100"
    by (simp add: c_def AllocNbhTable_def connectivity_add_def empty_connectivity_def)
  from AddNeighborList_subtracts_one_from_padding[OF a v e k s] mv
  have "rows c' ! 0 ! 1 = 0 - 1 \<and> missing_value c' = 100 \<and> rows c' ! 0 ! 1 \<noteq> missing_value c'"
    by simp
  moreover have "ints (example_var [6, 3] [1, 1, 1, 0, 0, 0, 0, 0, 0, 0, 0, 0, 0, 0, 0, 0, 0, 0]) (1 * 3 + 0) = 0"
    by (simp add: example_var_def)
  ultimately show ?thesis using a unfolding c_def by blast
qed

text \<open>
  Claim C9. A mesh returned by \<open>AtlasMeshFromNetCDFComplete\<close> has the nodes (coordinates,
  global and remote indices, partitions, ghost flags, flags) and the cells (cell-to-node
  connectivity, global indices, partitions) of the mesh that \<open>AtlasMeshFromNetCDFMinimal\<close>
  returns on the same file; it differs from that mesh in the edges and the five neighbour
  tables only.
\<close>

theorem Complete_extends_Minimal:
  assumes "AtlasMeshFromNetCDFComplete mv fs fn = Inr (Some m)"
  shows "\<exists>m0. AtlasMeshFromNetCDFMinimal mv fs fn = Inr (Some m0)
       \<and> nodes_size m = nodes_size m0 \<and> nodes_xy m = nodes_xy m0
       \<and> nodes_lonlat m = nodes_lonlat m0
       \<and> nodes_global_index m = nodes_global_index m0
       \<and> nodes_remote_index m = nodes_remote_index m0
       \<and> nodes_partition m = nodes_partition m0
       \<and> nodes_ghost m = nodes_ghost m0 \<and> nodes_flags m = nodes_flags m0
       \<and> cells_size m = cells_size m0
       \<and> cells_node_connectivity m = cells_node_connectivity m0
       \<and> cells_global_index m = cells_global_index m0
       \<and> cells_partition m = cells_partition m0
       \<and> m = m0\<lparr>edges_size := edges_size m,
                 edges_cell_connectivity := edges_cell_connectivity m,
                 edges_node_connectivity := edges_node_connectivity m,
                 nodes_cell_connectivity := nodes_cell_connectivity m,
                 nodes_edge_connectivity := nodes_edge_connectivity m,
                 cells_edge_connectivity := cells_edge_connectivity m\<rparr>"
proof -
  from Complete_Some[OF assms] obtain m0 :: mesh and numEdges where
    m0: "AtlasMeshFromNetCDFMinimal mv fs fn = Inr (Some m0)"
    and m: "m = m0\<lparr>edges_size := numEdges,
              edges_cell_connectivity := edges_cell_connectivity m,
              edges_node_connectivity := edges_node_connectivity m,
              nodes_cell_connectivity := nodes_cell_connectivity m,
              nodes_edge_connectivity := nodes_edge_connectivity m,
              cells_edge_connectivity := cells_edge_connectivity m\<rparr>"
    by blast
  have e: "edges_size m = numEdges" using arg_cong[OF m, of edges_size] by simp
  have "nodes_size m = nodes_size m0" "nodes_xy m = nodes_xy m0"
    "nodes_lonlat m = nodes_lonlat m0" "nodes_global_index m = nodes_global_index m0"
    "nodes_remote_index m = nodes_remote_index m0" "nodes_partition m = nodes_partition m0"
    "nodes_ghost m = nodes_ghost m0" "nodes_flags m = nodes_flags m0"
    "cells_size m = cells_size m0" "cells_node_connectivity m = cells_node_connectivity m0"
    "cells_global_index m = cells_global_index m0" "cells_partition m = cells_partition m0"
    using arg_cong[OF m, of nodes_size] arg_cong[OF m, of nodes_xy]
      arg_cong[OF m, of nodes_lonlat] arg_cong[OF m, of nodes_global_index]
      arg_cong[OF m, of nodes_remote_index] arg_cong[OF m, of nodes_partition]
      arg_cong[OF m, of nodes_ghost] arg_cong[OF m, of nodes_flags]
      arg_cong[OF m, of cells_size] arg_cong[OF m, of cells_node_connectivity]
      arg_cong[OF m, of cells_global_index] arg_cong[OF m, of cells_partition]
    by simp_all
  with m0 m e show ?thesis by (intro exI[of _ m0]) simp
qed

theorem Complete_extends_Minimal_witness:
  "\<exists>m m0. AtlasMeshFromNetCDFComplete (- 1) example_fs ''complete.nc'' = Inr (Some m)
     \<and> AtlasMeshFromNetCDFMinimal (- 1) example_fs ''complete.nc'' = Inr (Some m0)
     \<and> nodes_lonlat m = nodes_lonlat m0
     \<and> nodes_global_index m = nodes_global_index m0
     \<and> nodes_remote_index m = nodes_remote_index m0
     \<and> nodes_partition m = nodes_partition m0
     \<and> nodes_ghost m = nodes_ghost m0
     \<and> cells_node_connectivity m = cells_node_connectivity m0"
proof -
  from example_complete_accepted obtain m :: mesh where
    m: "AtlasMeshFromNetCDFComplete (- 1) example_fs ''complete.nc'' = Inr (Some m)" by blast
  from Complete_extends_Minimal[OF m] m show ?thesis by blast
qed


lemma NodesFromNetCDF_valid:
  assumes "f ''vlon'' = Some vlon" and "dims vlon = [n]"
    and "f ''vlat'' = Some vlat" and "dims vlat = [n]" and "0 < n"
  shows "\<exists>m'. NodesFromNetCDF f m = Inr (True, m')"
  using assms by (simp add: NodesFromNetCDF_def LoadField_double_def)

lemma CellsFromNetCDF_valid:
  assumes voc: "f ''vertex_of_cell'' = Some voc" and d: "dims voc = [3, ncells]"
    and r: "rows (cells_node_connectivity m) = []"
  shows "\<exists>m'. CellsFromNetCDF f m = Inr (True, m')"
proof -
  define ctv where "ctv = map (ints voc) [0..<3 * ncells]"
  define m1 where "m1 = cells_add_Triangle ncells m"
  have ld: "Load2DField_int f ''vertex_of_cell'' = Inr (ctv, 3, ncells)"
    using voc d by (simp add: Load2DField_int_def ctv_def)
  have rows1: "rows (cells_node_connectivity m1) =
      replicate ncells (replicate 3 (missing_value (cells_node_connectivity m)))"
    using r by (simp add: m1_def cells_add_Triangle_def connectivity_add_def)
  have "\<forall>e\<in>set [0..<ncells]. e < length (rows (cells_node_connectivity m1))
          \<and> length (rows (cells_node_connectivity m1) ! e) \<le> 3"
    by (simp add: rows1)
  from for_each_set_neighbors_ok[OF this] obtain c' where
    "for_each (set_neighbors ctv 3 ncells) [0..<ncells] (cells_node_connectivity m1) = Inr c'"
    by blast
  from for_each_set_cell_ok[OF this] obtain m' where
    "for_each (set_cell ctv ncells) [0..<ncells] m1 = Inr m'" by blast
  with ld show ?thesis by (simp add: CellsFromNetCDF_def m1_def)
qed

text \<open>
  Claim C8. On a file with \<open>vlon\<close> and \<open>vlat\<close> of one non-zero size and a
  \<open>vertex_of_cell\<close> of three rows, and with neither \<open>edge_index\<close> nor \<open>elat\<close>,
  \<open>AtlasMeshFromNetCDFMinimal\<close> returns a mesh and \<open>AtlasMeshFromNetCDFComplete\<close> returns the
  empty optional.
\<close>

theorem Complete_absent_without_edge_data:
  assumes f: "fs fn = Some f"
    and vlon: "f ''vlon'' = Some vlon" "dims vlon = [n]"
    and vlat: "f ''vlat'' = Some vlat" "dims vlat = [n]" and n: "0 < n"
    and voc: "f ''vertex_of_cell'' = Some voc" "dims voc = [3, ncells]"
    and no_edges: "f ''edge_index'' = None" "f ''elat'' = None"
  shows "(\<exists>m. AtlasMeshFromNetCDFMinimal mv fs fn = Inr (Some m))
       \<and> AtlasMeshFromNetCDFComplete mv fs fn = Inr None"
proof -
  from NodesFromNetCDF_valid[OF vlon vlat n] obtain m1 where
    m1: "NodesFromNetCDF f (empty_mesh mv) = Inr (True, m1)" by blast
  have "rows (cells_node_connectivity m1) = []"
    using NodesFromNetCDF_tables[OF m1] by (simp add: empty_mesh_def empty_connectivity_def)
  from CellsFromNetCDF_valid[of f, OF voc this] obtain m where
    m: "CellsFromNetCDF f m1 = Inr (True, m)" by blast
  have minimal: "AtlasMeshFromNetCDFMinimal mv fs fn = Inr (Some m)"
    using f m1 m by (simp add: AtlasMeshFromNetCDFMinimal_def)
  have "AtlasMeshFromNetCDFComplete mv fs fn = Inr None"
    using minimal f no_edges by (simp add: AtlasMeshFromNetCDFComplete_def LoadField_int_def)
  with minimal show ?thesis by blast
qed

theorem Complete_absent_without_edge_data_witness:
  "(\<exists>m. AtlasMeshFromNetCDFMinimal (- 1) example_fs ''minimal.nc'' = Inr (Some m))
     \<and> AtlasMeshFromNetCDFComplete (- 1) example_fs ''minimal.nc'' = Inr None"
proof -
  have f: "example_fs ''minimal.nc'' = Some example_minimal"
    by (simp add: example_fs_def)
  have vlon: "example_minimal ''vlon'' = Some (example_var [3] [0, 1, 0])"
    and vlat: "example_minimal ''vlat'' = Some (example_var [3] [0, 0, 1])"
    and voc: "example_minimal ''vertex_of_cell'' = Some (example_var [3, 1] [1, 2, 3])"
    and ne: "example_minimal ''edge_index'' = None" "example_minimal ''elat'' = None"
    by (simp_all add: example_minimal_def)
  have d: "dims (example_var [3] [0, 1, 0]) = [3]" "dims (example_var [3] [0, 0, 1]) = [3]"
    "dims (example_var [3, 1] [1, 2, 3]) = [3, 1]"
    by (simp_all add: example_var_def)
  show ?thesis
    by (rule Complete_absent_without_edge_data[of example_fs _ example_minimal, OF f vlon d(1) vlat d(2) _ voc d(3) ne]) simp
qed

text \<open>
  Claim C7, as stated, fails: the file \<open>no_edge_of_cell.nc\<close> has edge data and every
  neighbour table but \<open>edge_of_cell\<close>, and \<open>AtlasMeshFromNetCDFComplete\<close> returns the empty
  optional on it.
\<close>

theorem missing_neighbor_table_counterexample:
  "example_fs ''no_edge_of_cell.nc'' = Some example_no_edge_of_cell
   \<and> LoadField_int example_no_edge_of_cell ''edge_index'' = Inr [1, 2, 3]
   \<and> example_no_edge_of_cell ''edge_of_cell'' = None
   \<and> AtlasMeshFromNetCDFComplete (- 1) example_fs ''no_edge_of_cell.nc'' = Inr None"
  by (simp add: importer_defs example_defs eval_nat_numeral)

text \<open>
  Claim C7, amended. A neighbour table missing from the file is an error:
  \<open>Load2DField\<close> reports 0 neighbours per element for it, \<open>AddNeighborList\<close> returns false,
  and \<open>AtlasMeshFromNetCDFComplete\<close> returns no mesh (the empty optional, unless an
  earlier step has already failed an assertion or written out of bounds).
\<close>

theorem missing_neighbor_table_is_an_error:
  assumes f: "fs fn = Some f" and t: "(name, cols, tbl) \<in> set neighbor_tables"
    and missing: "f name = None"
  shows "AtlasMeshFromNetCDFComplete mv fs fn = Inr None
       \<or> (\<exists>e. AtlasMeshFromNetCDFComplete mv fs fn = Inl e)"
proof -
  have "AtlasMeshFromNetCDFComplete mv fs fn \<noteq> Inr (Some m)" for m
  proof
    assume "AtlasMeshFromNetCDFComplete mv fs fn = Inr (Some m)"
    from Complete_Some[OF this] obtain f' and m0 :: mesh and numEdges where f': "fs fn = Some f'"
      and c1: "AddNeighborList f' ''adjacent_cell_of_edge'' 2
           (AllocNbhTable (empty_connectivity mv) numEdges 2) = Inr (True, edges_cell_connectivity m)"
      and c2: "AddNeighborList f' ''edge_vertices'' 2
           (AllocNbhTable (connectivity_add numEdges 2 mv (empty_connectivity mv)) numEdges 2)
         = Inr (True, edges_node_connectivity m)"
      and c3: "AddNeighborList f' ''cells_of_vertex'' 6
           (AllocNbhTable (empty_connectivity mv) (nodes_size m0) 6) = Inr (True, nodes_cell_connectivity m)"
      and c4: "AddNeighborList f' ''edges_of_vertex'' 6
           (AllocNbhTable (empty_connectivity mv) (nodes_size m0) 6) = Inr (True, nodes_edge_connectivity m)"
      and c5: "AddNeighborList f' ''edge_of_cell'' 3
           (AllocNbhTable (empty_connectivity mv) (cells_size m0) 3) = Inr (True, cells_edge_connectivity m)"
      by blast
    from f f' have ff: "f' = f" by simp
    from t have "name = ''adjacent_cell_of_edge'' \<or> name = ''edge_vertices''
        \<or> name = ''cells_of_vertex'' \<or> name = ''edges_of_vertex'' \<or> name = ''edge_of_cell''"
      unfolding neighbor_tables_def by auto
    then show False
    proof (elim disjE)
      assume "name = ''adjacent_cell_of_edge''"
      with missing c1[unfolded ff] show False by (simp add: AddNeighborList_missing)
    next
      assume "name = ''edge_vertices''"
      with missing c2[unfolded ff] show False by (simp add: AddNeighborList_missing)
    next
      assume "name = ''cells_of_vertex''"
      with missing c3[unfolded ff] show False by (simp add: AddNeighborList_missing)
    next
      assume "name = ''edges_of_vertex''"
      with missing c4[unfolded ff] show False by (simp add: AddNeighborList_missing)
    next
      assume "name = ''edge_of_cell''"
      with missing c5[unfolded ff] show False by (simp add: AddNeighborList_missing)
    qed
  qed
  then show ?thesis
    by (cases "AtlasMeshFromNetCDFComplete mv fs fn")
       (auto simp: option.exhaust)
qed

theorem missing_neighbor_table_is_an_error_witness:
  "example_fs ''no_edge_of_cell.nc'' = Some example_no_edge_of_cell
   \<and> example_no_edge_of_cell ''edge_of_cell'' = None
   \<and> (AtlasMeshFromNetCDFComplete (- 1) example_fs ''no_edge_of_cell.nc'' = Inr None
       \<or> (\<exists>e. AtlasMeshFromNetCDFComplete (- 1) example_fs ''no_edge_of_cell.nc'' = Inl e))"
proof -
  have f: "example_fs ''no_edge_of_cell.nc'' = Some example_no_edge_of_cell"
    by (simp add: example_fs_def)
  have t: "(''edge_of_cell'', edgesPerCell, cells_edge_connectivity) \<in> set neighbor_tables"
    by (simp add: neighbor_tables_def)
  have n: "example_no_edge_of_cell ''edge_of_cell'' = None"
    by (simp add: example_no_edge_of_cell_def example_minimal_def)
  from missing_neighbor_table_is_an_error[of example_fs _ example_no_edge_of_cell, OF f t n] f n show ?thesis by blast
qed

section \<open>Properties of the rectangular mesh\<close>

lemma inBB_mono:
  assumes "fst lo2 \<le> fst lo1" and "snd lo2 \<le> snd lo1"
    and "fst hi1 \<le> fst hi2" and "snd hi1 \<le> snd hi2" and "inBB lo1 hi1 x y"
  shows "inBB lo2 hi2 x y"
  using assms by (auto simp: inBB_def)

lemma TriangleInBB_Inr_mono:
  assumes "fst lo2 \<le> fst lo1" and "snd lo2 \<le> snd lo1"
    and "fst hi1 \<le> fst hi2" and "snd hi1 \<le> snd hi2"
    and "TriangleInBB m cellIdx lo1 hi1 = Inr b1"
  shows "\<exists>b2. TriangleInBB m cellIdx lo2 hi2 = Inr b2 \<and> (b1 \<longrightarrow> b2)"
proof -
  from assms(5) obtain node0 node1 node2 x0 y0 x1 y1 x2 y2 where
    n: "cellToNode m cellIdx 0 = Inr node0" "cellToNode m cellIdx 1 = Inr node1"
       "cellToNode m cellIdx 2 = Inr node2"
    and xy: "getXY m node0 = Inr (x0, y0)" "getXY m node1 = Inr (x1, y1)"
       "getXY m node2 = Inr (x2, y2)"
    and b: "b1 = (inBB lo1 hi1 x0 y0 \<or> inBB lo1 hi1 x1 y1 \<or> inBB lo1 hi1 x2 y2)"
    by (auto simp: TriangleInBB_def split: sum.splits prod.splits)
  have "TriangleInBB m cellIdx lo2 hi2 =
      Inr (inBB lo2 hi2 x0 y0 \<or> inBB lo2 hi2 x1 y1 \<or> inBB lo2 hi2 x2 y2)"
    using n xy by (simp add: TriangleInBB_def)
  moreover have "b1 \<longrightarrow> (inBB lo2 hi2 x0 y0 \<or> inBB lo2 hi2 x1 y1 \<or> inBB lo2 hi2 x2 y2)"
    unfolding b using inBB_mono[OF assms(1-4)] by blast
  ultimately show ?thesis by blast
qed

lemma select_cell_mono:
  assumes box: "fst lo2 \<le> fst lo1" "snd lo2 \<le> snd lo1" "fst hi1 \<le> fst hi2" "snd hi1 \<le> snd hi2"
    and "for_each (select_cell m lo1 hi1) cs keep1 = Inr keep1'" and "set keep1 \<subseteq> set keep2"
  shows "\<exists>keep2'. for_each (select_cell m lo2 hi2) cs keep2 = Inr keep2' \<and> set keep1' \<subseteq> set keep2'"
  using assms(5,6)
proof (induction cs arbitrary: keep1 keep2)
  case Nil
  then show ?case by simp
next
  case (Cons c cs)
  from Cons.prems(1) obtain k1 where s1: "select_cell m lo1 hi1 c keep1 = Inr k1"
    and r0: "for_each (select_cell m lo1 hi1) cs k1 = Inr keep1'"
    by (auto split: sum.splits)
  from s1 obtain b1 where b1: "TriangleInBB m c lo1 hi1 = Inr b1"
    and k1: "k1 = (if b1 then keep1 @ [c] else keep1)"
    by (auto simp: select_cell_def split: sum.splits)
  from r0 k1 have
    r: "for_each (select_cell m lo1 hi1) cs (if b1 then keep1 @ [c] else keep1) = Inr keep1'"
    by simp
  from TriangleInBB_Inr_mono[OF box b1] obtain b2 where
    b2: "TriangleInBB m c lo2 hi2 = Inr b2" and imp: "b1 \<longrightarrow> b2" by blast
  have "set (if b1 then keep1 @ [c] else keep1) \<subseteq> set (if b2 then keep2 @ [c] else keep2)"
    using Cons.prems(2) imp by auto
  from Cons.IH[OF r this] b2 show ?case by (simp add: select_cell_def)
qed

text \<open>
  Claim C3. \<open>TriangleInBB\<close> is monotonic in the box. Let box 1 lie in box 2 (componentwise,
  the low corner of box 2 at most that of box 1 and the high corner of box 1 at most that
  of box 2). If \<open>TriangleInBB\<close> returns true for a cell and box 1, then it returns true for
  the cell and box 2, and one of the cell's three nodes lies strictly inside box 1. The
  cells that the selection loop of \<open>AtlasMeshRect\<close> keeps for box 1 are among those it keeps
  for box 2.
\<close>

theorem TriangleInBB_monotone:
  assumes "fst lo2 \<le> fst lo1" and "snd lo2 \<le> snd lo1"
    and "fst hi1 \<le> fst hi2" and "snd hi1 \<le> snd hi2"
  shows "(TriangleInBB m cellIdx lo1 hi1 = Inr True \<longrightarrow>
            TriangleInBB m cellIdx lo2 hi2 = Inr True
          \<and> (\<exists>k<3. \<exists>node x y. cellToNode m cellIdx k = Inr node \<and> getXY m node = Inr (x, y)
                \<and> fst lo1 < x \<and> x < fst hi1 \<and> snd lo1 < y \<and> y < snd hi1))
       \<and> (\<forall>keep1. for_each (select_cell m lo1 hi1) cells [] = Inr keep1 \<longrightarrow>
            (\<exists>keep2. for_each (select_cell m lo2 hi2) cells [] = Inr keep2
               \<and> set keep1 \<subseteq> set keep2))"
proof (intro conjI impI allI)
  assume t: "TriangleInBB m cellIdx lo1 hi1 = Inr True"
  from TriangleInBB_Inr_mono[OF assms t]
  show "TriangleInBB m cellIdx lo2 hi2 = Inr True" by auto
  from t obtain node0 node1 node2 x0 y0 x1 y1 x2 y2 where
    n: "cellToNode m cellIdx 0 = Inr node0" "cellToNode m cellIdx 1 = Inr node1"
       "cellToNode m cellIdx 2 = Inr node2"
    and xy: "getXY m node0 = Inr (x0, y0)" "getXY m node1 = Inr (x1, y1)"
       "getXY m node2 = Inr (x2, y2)"
    and b: "inBB lo1 hi1 x0 y0 \<or> inBB lo1 hi1 x1 y1 \<or> inBB lo1 hi1 x2 y2"
    by (auto simp: TriangleInBB_def split: sum.splits prod.splits)
  from b show "\<exists>k<3. \<exists>node x y. cellToNode m cellIdx k = Inr node \<and> getXY m node = Inr (x, y)
             \<and> fst lo1 < x \<and> x < fst hi1 \<and> snd lo1 < y \<and> y < snd hi1"
  proof (elim disjE)
    assume "inBB lo1 hi1 x0 y0"
    with n(1) xy(1) show ?thesis by (intro exI[of _ 0]) (auto simp: inBB_def)
  next
    assume "inBB lo1 hi1 x1 y1"
    with n(2) xy(2) show ?thesis by (intro exI[of _ 1]) (auto simp: inBB_def)
  next
    assume "inBB lo1 hi1 x2 y2"
    with n(3) xy(3) show ?thesis by (intro exI[of _ 2]) (auto simp: inBB_def)
  qed
next
  fix keep1 assume "for_each (select_cell m lo1 hi1) cells [] = Inr keep1"
  from select_cell_mono[OF assms this, of "[]"]
  show "\<exists>keep2. for_each (select_cell m lo2 hi2) cells [] = Inr keep2 \<and> set keep1 \<subseteq> set keep2"
    by simp
qed

lemma example_triangle_in_box:
  "TriangleInBB example_triangle 0 (1, 1) (3, 4) = Inr True"
  by (simp add: TriangleInBB_def cellToNode_def getXY_def inBB_def example_triangle_def
        empty_mesh_def empty_connectivity_def)

lemma example_triangle_selected:
  "for_each (select_cell example_triangle (1, 1) (3, 4)) [0] [] = Inr [0]"
  by (simp add: select_cell_def example_triangle_in_box)

theorem TriangleInBB_monotone_witness:
  "TriangleInBB example_triangle 0 (1, 1) (3, 4) = Inr True
   \<and> TriangleInBB example_triangle 0 (0, 0) (5, 5) = Inr True
   \<and> for_each (select_cell example_triangle (1, 1) (3, 4)) [0] [] = Inr [0]
   \<and> for_each (select_cell example_triangle (0, 0) (5, 5)) [0] [] = Inr [0]"
proof -
  note t = TriangleInBB_monotone[of "(0, 0)" "(1, 1)" "(3, 4)" "(5, 5)" example_triangle 0 "[0]"]
  have big: "TriangleInBB example_triangle 0 (0, 0) (5, 5) = Inr True"
    using t example_triangle_in_box by simp
  then have "for_each (select_cell example_triangle (0, 0) (5, 5)) [0] [] = Inr [0]"
    by (simp add: select_cell_def)
  with big example_triangle_in_box example_triangle_selected show ?thesis by simp
qed
























































section \<open>Properties of the Bounding-Box Normalizer\<close>











end
